theory Spec2Isabelle
  imports
    Complex_Main
    "HOL-Library.AList"
    "HOL-Library.Sublist"
    "HOL-Library.Char_ord"
    "HOL-Library.List_Lexorder"
begin

section \<open>Conventions of the embedding\<close>

text \<open>
  The development embeds the histogram engine of \<^verbatim>\<open>main.go\<close>.

  \<^item> A Go \<^verbatim>\<open>string\<close> is a \<^typ>\<open>string\<close>, a list of bytes; \<^verbatim>\<open><\<close> on Go strings
    compares bytes lexicographically, which is the order of \<^typ>\<open>char list\<close> here.
  \<^item> A Go \<^verbatim>\<open>map[K]V\<close> is an association list with one entry per key. A read of an
    absent key gives the zero value of \<^verbatim>\<open>V\<close> (\<open>mapGet\<close>). The position of an entry
    in the list has no meaning for the program: a \<^verbatim>\<open>range\<close> over a map visits the
    keys in an order the Go runtime chooses afresh each time. Every loop whose outcome
    depends on that order therefore takes the visiting order as an argument
    (\<open>rangeOrder\<close> says that an argument is a possible order). The other loops over
    maps (the pins of the filter, the keys that are sorted, the columns of a rebuild,
    the greatest column) run through the entries as the list has them.
  \<^item> \<^verbatim>\<open>float64\<close> is idealised as \<^typ>\<open>real\<close>: rounding, infinities and NaN are
    outside the model. \<^verbatim>\<open>strconv.ParseFloat\<close> belongs to the Go library and is an
    argument \<open>pf\<close> of the functions that parse; \<open>None\<close> stands for \<^verbatim>\<open>err != nil\<close>.
  \<^item> Go's \<^verbatim>\<open>int\<close> is \<^typ>\<open>int\<close>; no operation modelled here comes near 64-bit overflow.
  \<^item> A run-time panic (index out of range) is the result \<open>None\<close>.
\<close>

section \<open>Go library functions on strings\<close>

text \<open>
  \<^verbatim>\<open>strings.TrimSpace\<close> removes leading and trailing Unicode white space. On the UTF-8
  bytes of a string these are exactly the following byte sequences (the runes for which
  \<^verbatim>\<open>unicode.IsSpace\<close> holds).
\<close>

definition spaceSeqs :: "string list" where
  "spaceSeqs =
    [[CHR 0x09], [CHR 0x0A], [CHR 0x0B], [CHR 0x0C], [CHR 0x0D], [CHR 0x20],
     [CHR 0xC2, CHR 0x85], [CHR 0xC2, CHR 0xA0],
     [CHR 0xE1, CHR 0x9A, CHR 0x80],
     [CHR 0xE2, CHR 0x80, CHR 0x80], [CHR 0xE2, CHR 0x80, CHR 0x81],
     [CHR 0xE2, CHR 0x80, CHR 0x82], [CHR 0xE2, CHR 0x80, CHR 0x83],
     [CHR 0xE2, CHR 0x80, CHR 0x84], [CHR 0xE2, CHR 0x80, CHR 0x85],
     [CHR 0xE2, CHR 0x80, CHR 0x86], [CHR 0xE2, CHR 0x80, CHR 0x87],
     [CHR 0xE2, CHR 0x80, CHR 0x88], [CHR 0xE2, CHR 0x80, CHR 0x89],
     [CHR 0xE2, CHR 0x80, CHR 0x8A],
     [CHR 0xE2, CHR 0x80, CHR 0xA8], [CHR 0xE2, CHR 0x80, CHR 0xA9],
     [CHR 0xE2, CHR 0x80, CHR 0xAF], [CHR 0xE2, CHR 0x81, CHR 0x9F],
     [CHR 0xE3, CHR 0x80, CHR 0x80]]"

text \<open>
  \<open>stripSeqs ws s\<close> removes from the front of \<open>s\<close> every leading occurrence of a
  sequence of \<open>ws\<close>, until none is a prefix of what is left.
\<close>

function stripSeqs :: "string list \<Rightarrow> string \<Rightarrow> string" where
  "stripSeqs ws s =
     (case find (\<lambda>w. w \<noteq> [] \<and> prefix w s) ws of
        None \<Rightarrow> s
      | Some w \<Rightarrow> stripSeqs ws (drop (length w) s))"
  by pat_completeness auto
termination
proof (relation "measure (\<lambda>(ws, s). length s)")
  show "wf (measure (\<lambda>(ws, s). length s))" by simp
next
  fix ws :: "string list" and s w :: string
  assume "find (\<lambda>w. w \<noteq> [] \<and> prefix w s) ws = Some w"
  then have "w \<noteq> []" and "prefix w s"
    by (auto simp: find_Some_iff)
  then have "s \<noteq> []" by auto
  with \<open>w \<noteq> []\<close> show "((ws, drop (length w) s), (ws, s)) \<in> measure (\<lambda>(ws, s). length s)"
    by simp
qed

declare stripSeqs.simps [simp del]

definition TrimSpace :: "string \<Rightarrow> string" where
  "TrimSpace s = rev (stripSeqs (map rev spaceSeqs) (rev (stripSeqs spaceSeqs s)))"

text \<open>
  \<^verbatim>\<open>strings.Split(s, "\t")\<close>: the fields between tab bytes; a string without a tab,
  the empty one included, is a single field.
\<close>

definition tab :: char where
  "tab = CHR 0x09"

fun SplitTab :: "string \<Rightarrow> string list" where
  "SplitTab [] = [[]]"
| "SplitTab (c # cs) =
     (if c = tab then [] # SplitTab cs
      else (case SplitTab cs of
              [] \<Rightarrow> [[c]]
            | w # ws \<Rightarrow> (c # w) # ws))"

section \<open>Go maps\<close>

type_synonym ('k, 'v) gomap = "('k \<times> 'v) list"

definition mapGet :: "('k, 'v) gomap \<Rightarrow> 'k \<Rightarrow> 'v \<Rightarrow> 'v" where
  \<comment> \<open>\<^verbatim>\<open>m[k]\<close>, with the zero value \<open>z\<close> of the value type for an absent key\<close>
  "mapGet m k z = (case map_of m k of None \<Rightarrow> z | Some v \<Rightarrow> v)"

definition mapHas :: "('k, 'v) gomap \<Rightarrow> 'k \<Rightarrow> bool" where
  \<comment> \<open>the \<^verbatim>\<open>ok\<close> of \<^verbatim>\<open>v, ok := m[k]\<close>\<close>
  "mapHas m k = (map_of m k \<noteq> None)"

definition mapKeys :: "('k, 'v) gomap \<Rightarrow> 'k list" where
  "mapKeys m = map fst m"

definition rangeOrder :: "('k, 'v) gomap \<Rightarrow> 'k list \<Rightarrow> bool" where
  \<comment> \<open>\<open>ks\<close> is an order in which a \<^verbatim>\<open>range\<close> over \<open>m\<close> may visit the keys\<close>
  "rangeOrder m ks = (distinct ks \<and> set ks = set (mapKeys m))"

section \<open>The application state\<close>

type_synonym facetMap = "(string, real list) gomap"
type_synonym facetTable = "(int, facetMap) gomap"

text \<open>
  The fields of \<^verbatim>\<open>model\<close> that the engine reads or writes. \<^verbatim>\<open>startTime\<close>,
  \<^verbatim>\<open>lines\<close>, \<^verbatim>\<open>stats\<close>, \<^verbatim>\<open>countStrings\<close>, \<^verbatim>\<open>activeFacetKeys\<close> and \<^verbatim>\<open>gridRows\<close>
  are used by the rendering and start-up code only.
\<close>

record model =
  facetsData :: facetTable
  storedLines :: "string list"
  totalLogCount :: int
  facet :: int
  winWidth :: int
  winHeight :: int
  scrollOffset :: int
  stringValues :: "(string, int) gomap"
  activeFacet :: string
  activeFacetPos :: "int \<times> int"
  facetPositions :: "(string, int \<times> int) gomap"
  gridColumns :: int
  pinnedFacets :: "(string, bool) gomap"
  pinnedFacetsColumn :: "(string, int) gomap"
  filteredData :: facetTable
  isFiltered :: bool

definition dataSource :: "model \<Rightarrow> facetTable" where
  \<comment> \<open>\<^verbatim>\<open>dataSource := m.facetsData; if m.isFiltered { dataSource = m.filteredData }\<close>\<close>
  "dataSource m = (if isFiltered m then filteredData m else facetsData m)"

section \<open>Ingestion: \<^verbatim>\<open>processLineWithFilter\<close> and \<^verbatim>\<open>processLine\<close>\<close>

text \<open>
  The loop over the pins in \<^verbatim>\<open>processLineWithFilter\<close>. \<open>Some True\<close>: the loop ran
  to its end; \<open>Some False\<close>: a pin did not match and the function returned;
  \<open>None\<close>: \<^verbatim>\<open>parts[pinnedCol]\<close> was read at a negative index.
\<close>

fun pinsAdmit :: "(string, bool) gomap \<Rightarrow> (string, int) gomap \<Rightarrow> string list \<Rightarrow> bool option" where
  "pinsAdmit [] cols parts = Some True"
| "pinsAdmit ((pinnedValue, isActive) # pins) cols parts =
     (if \<not> isActive then pinsAdmit pins cols parts
      else
        (let pinnedCol = mapGet cols pinnedValue 0 in
         if pinnedCol < int (length parts) then
           (if pinnedCol < 0 then None
            else if parts ! nat pinnedCol \<noteq> pinnedValue then Some False
            else pinsAdmit pins cols parts)
         else pinsAdmit pins cols parts))"

text \<open>
  No pin is bound to a negative column. The program binds a pin to the number of the
  single-facet view, when that is positive, or to a key of the full table, and the keys
  of the tables are positions of fields, from 1 on.
\<close>

definition pinsWellFormed :: "model \<Rightarrow> bool" where
  "pinsWellFormed m =
     (\<forall>(v, a) \<in> set (pinnedFacets m). 0 \<le> mapGet (pinnedFacetsColumn m) v 0)"

text \<open>\<^verbatim>\<open>targetData[index][facet] = append(targetData[index][facet], value)\<close>, the inner
  map being created when \<^verbatim>\<open>targetData[index] == nil\<close>.\<close>

definition addSample :: "facetTable \<Rightarrow> int \<Rightarrow> string \<Rightarrow> real \<Rightarrow> facetTable" where
  "addSample targetData index fct v =
     (let inner = mapGet targetData index []
      in AList.update index (AList.update fct (mapGet inner fct [] @ [v]) inner) targetData)"

text \<open>\<^verbatim>\<open>for i, facet := range parts[1:]\<close>, with \<open>index = i + 1\<close>.\<close>

fun addFacets :: "facetTable \<Rightarrow> int \<Rightarrow> string list \<Rightarrow> real \<Rightarrow> facetTable" where
  "addFacets targetData index [] v = targetData"
| "addFacets targetData index (fct # rest) v =
     addFacets (addSample targetData index fct v) (index + 1) rest v"

definition processLineWithFilter ::
  "(string \<Rightarrow> real option) \<Rightarrow> model \<Rightarrow> string \<Rightarrow> bool \<Rightarrow> model option" where
  "processLineWithFilter pf m line0 applyFilter =
     (let line = TrimSpace line0 in
      if line = [] then Some m
      else
        (let parts = SplitTab line in
         if length parts < 1 then Some m
         else
           (case (if applyFilter \<and> length (pinnedFacets m) > 0
                  then pinsAdmit (pinnedFacets m) (pinnedFacetsColumn m) parts
                  else Some True) of
              None \<Rightarrow> None
            | Some admitted \<Rightarrow>
                if \<not> admitted then Some m
                else
                (case pf (parts ! 0) of
                   None \<Rightarrow>
                     (if \<not> applyFilter
                      then Some (m\<lparr>stringValues :=
                                      AList.update (parts ! 0)
                                        (mapGet (stringValues m) (parts ! 0) 0 + 1)
                                        (stringValues m),
                                    totalLogCount := totalLogCount m + 1\<rparr>)
                      else Some m)
                 | Some v \<Rightarrow>
                     (let m1 = (if \<not> applyFilter
                                then m\<lparr>totalLogCount := totalLogCount m + 1\<rparr>
                                else m)
                      in if applyFilter
                         then Some (m1\<lparr>filteredData := addFacets (filteredData m1) 1 (tl parts) v\<rparr>)
                         else Some (m1\<lparr>facetsData := addFacets (facetsData m1) 1 (tl parts) v\<rparr>))))))"

definition processLine :: "(string \<Rightarrow> real option) \<Rightarrow> model \<Rightarrow> string \<Rightarrow> model option" where
  "processLine pf m line =
     (let m1 = m\<lparr>storedLines := storedLines m @ [line]\<rparr> in
      case processLineWithFilter pf m1 line False of
        None \<Rightarrow> None
      | Some m2 \<Rightarrow>
          (if isFiltered m2 then processLineWithFilter pf m2 line True else Some m2))"

section \<open>Rebuilding the filtered table\<close>

fun replayLines :: "(string \<Rightarrow> real option) \<Rightarrow> model \<Rightarrow> string list \<Rightarrow> model option" where
  \<comment> \<open>\<^verbatim>\<open>for _, line := range m.storedLines { m.processLineWithFilter(line, true) }\<close>\<close>
  "replayLines pf m [] = Some m"
| "replayLines pf m (line # rest) =
     (case processLineWithFilter pf m line True of
        None \<Rightarrow> None
      | Some m' \<Rightarrow> replayLines pf m' rest)"

definition regenerateFilteredData :: "(string \<Rightarrow> real option) \<Rightarrow> model \<Rightarrow> model option" where
  "regenerateFilteredData pf m =
     (let m1 = m\<lparr>filteredData := []\<rparr>;
          m2 = m1\<lparr>filteredData :=
                     foldl (\<lambda>t facetCol. AList.update facetCol [] t)
                       (filteredData m1) (mapKeys (facetsData m1))\<rparr>
      in replayLines pf m2 (storedLines m2))"

section \<open>Ranking: \<^verbatim>\<open>computeMean\<close> and \<^verbatim>\<open>getSortedFacetKeys\<close>\<close>

definition computeMean :: "real list \<Rightarrow> real" where
  "computeMean values =
     (if length values = 0 then 0
      else foldl (\<lambda>sum v. sum + v) 0 values / real (length values))"

definition facetLess :: "facetMap \<Rightarrow> string \<Rightarrow> string \<Rightarrow> bool" where
  \<comment> \<open>the \<^verbatim>\<open>less\<close> closure given to \<^verbatim>\<open>sort.Slice\<close>, on the keys at the two indices\<close>
  "facetLess facetData ki kj =
     (let meanI = computeMean (mapGet facetData ki []);
          meanJ = computeMean (mapGet facetData kj [])
      in if meanI \<noteq> meanJ then meanI > meanJ else ki < kj)"

text \<open>
  \<^verbatim>\<open>sort.Slice\<close> is Go's library sort. It is represented by insertion sort; lemma
  \<open>ranked_unique\<close> below shows that for the comparison \<open>facetLess\<close> every sorting
  procedure returns the same list, so nothing depends on this choice.
\<close>

fun insertLess :: "('a \<Rightarrow> 'a \<Rightarrow> bool) \<Rightarrow> 'a \<Rightarrow> 'a list \<Rightarrow> 'a list" where
  "insertLess lt x [] = [x]"
| "insertLess lt x (y # ys) =
     (if lt x y then x # y # ys else y # insertLess lt x ys)"

fun sortSlice :: "('a \<Rightarrow> 'a \<Rightarrow> bool) \<Rightarrow> 'a list \<Rightarrow> 'a list" where
  "sortSlice lt [] = []"
| "sortSlice lt (x # xs) = insertLess lt x (sortSlice lt xs)"

definition getSortedFacetKeys :: "facetMap \<Rightarrow> string list" where
  "getSortedFacetKeys facetData = sortSlice (facetLess facetData) (mapKeys facetData)"


section \<open>Navigation\<close>

text \<open>Go's \<^verbatim>\<open>/\<close> and \<^verbatim>\<open>%\<close> on \<^verbatim>\<open>int\<close> truncate towards zero.\<close>

definition goDiv :: "int \<Rightarrow> int \<Rightarrow> int" where
  "goDiv a b = sgn a * sgn b * (\<bar>a\<bar> div \<bar>b\<bar>)"

definition goMod :: "int \<Rightarrow> int \<Rightarrow> int" where
  "goMod a b = a - b * goDiv a b"

definition updatePositionFromActiveFacet :: "model \<Rightarrow> model" where
  "updatePositionFromActiveFacet m =
     (case map_of (facetPositions m) (activeFacet m) of
        Some pos \<Rightarrow> m\<lparr>activeFacetPos := pos\<rparr>
      | None \<Rightarrow> m)"

definition ensureActiveFacetVisible :: "model \<Rightarrow> model" where
  "ensureActiveFacetVisible m =
     (if activeFacet m = [] then m
      else if \<not> mapHas (facetPositions m) (activeFacet m) then m
      else
        (let row = fst (activeFacetPos m);
             rowHeight = 15;
             staticHeight = 10;
             availableHeight = winHeight m - staticHeight;
             startRow = goDiv (scrollOffset m) rowHeight;
             endRow = goDiv (scrollOffset m + availableHeight) rowHeight
         in if row < startRow then m\<lparr>scrollOffset := row * rowHeight\<rparr>
            else if row \<ge> endRow then m\<lparr>scrollOffset := (row - endRow + 1) * rowHeight + 1\<rparr>
            else m))"

text \<open>
  The loop that looks for the first ranked key, in \<^verbatim>\<open>navigateGrid\<close> and in
  \<^verbatim>\<open>resetActiveFacet\<close>: \<open>order\<close> is the order in which the \<^verbatim>\<open>range\<close> over the
  table visits the columns.
\<close>

fun firstKey :: "int list \<Rightarrow> facetTable \<Rightarrow> string option" where
  "firstKey [] ds = None"
| "firstKey (facetCol # rest) ds =
     (case getSortedFacetKeys (mapGet ds facetCol []) of
        [] \<Rightarrow> firstKey rest ds
      | k # _ \<Rightarrow> Some k)"

text \<open>The loop that builds \<^verbatim>\<open>allKeys\<close> in \<^verbatim>\<open>navigateGrid\<close>.\<close>

fun collectKeys :: "int list \<Rightarrow> facetTable \<Rightarrow> string list" where
  "collectKeys [] ds = []"
| "collectKeys (facetCol # rest) ds =
     getSortedFacetKeys (mapGet ds facetCol []) @ collectKeys rest ds"

text \<open>The search for \<^verbatim>\<open>currentIndex\<close>: the first position of the key, or \<open>-1\<close>.\<close>

fun indexFrom :: "int \<Rightarrow> string list \<Rightarrow> string \<Rightarrow> int" where
  "indexFrom i [] a = -1"
| "indexFrom i (key # rest) a = (if key = a then i else indexFrom (i + 1) rest a)"

definition indexOf :: "string list \<Rightarrow> string \<Rightarrow> int" where
  "indexOf keys a = indexFrom 0 keys a"

definition gridWidth :: "model \<Rightarrow> int" where
  \<comment> \<open>\<^verbatim>\<open>columns\<close> in the single-facet branch of \<^verbatim>\<open>navigateGrid\<close>\<close>
  "gridWidth m =
     (if gridColumns m < 1 then max 1 (goDiv (winWidth m) 60) else gridColumns m)"

definition navigateGrid :: "int list \<Rightarrow> int list \<Rightarrow> int \<Rightarrow> int \<Rightarrow> model \<Rightarrow> model" where
  "navigateGrid order1 order2 dx dy m =
     (let ds = dataSource m in
      if facet m = 0 then
        (let m1 = (if activeFacet m = []
                   then (case firstKey order1 ds of
                           None \<Rightarrow> m
                         | Some k \<Rightarrow> m\<lparr>activeFacet := k\<rparr>)
                   else m)
         in if activeFacet m1 = [] then m1
            else
              (let allKeys = collectKeys order2 ds in
               if length allKeys = 0 then m1
               else
                 (let currentIndex = indexOf allKeys (activeFacet m1) in
                  if currentIndex = -1
                  then updatePositionFromActiveFacet (m1\<lparr>activeFacet := allKeys ! 0\<rparr>)
                  else if dy > 0 then
                    (let newIndex = (if currentIndex + 1 \<ge> int (length allKeys)
                                     then int (length allKeys) - 1 else currentIndex + 1)
                     in ensureActiveFacetVisible (updatePositionFromActiveFacet
                          (m1\<lparr>activeFacet := allKeys ! nat newIndex\<rparr>)))
                  else if dy < 0 then
                    (let newIndex = (if currentIndex - 1 < 0 then 0 else currentIndex - 1)
                     in ensureActiveFacetVisible (updatePositionFromActiveFacet
                          (m1\<lparr>activeFacet := allKeys ! nat newIndex\<rparr>)))
                  else m1)))
      else if facet m > 0 then
        (case map_of ds (facet m) of
           None \<Rightarrow> m
         | Some facetData \<Rightarrow>
             (let keys = getSortedFacetKeys facetData in
              if length keys = 0 then m
              else
                (let currentIndex = indexOf keys (activeFacet m) in
                 if currentIndex = -1
                 then m\<lparr>activeFacet := keys ! 0, activeFacetPos := (0, 0)\<rparr>
                 else
                   (let columns = gridWidth m;
                        currentRow = goDiv currentIndex columns;
                        currentCol = goMod currentIndex columns;
                        targetRow = currentRow + dy;
                        targetCol = currentCol + dx
                    in if targetRow < 0 \<or> targetCol < 0 then m
                       else
                         (let targetIndex = targetRow * columns + targetCol in
                          if targetIndex \<ge> 0 \<and> targetIndex < int (length keys)
                          then ensureActiveFacetVisible
                                 (m\<lparr>activeFacet := keys ! nat targetIndex,
                                    activeFacetPos := (targetRow, targetCol)\<rparr>)
                          else m)))))
      else m)"

text \<open>A sequence of moves: each with the two visiting orders of its \<^verbatim>\<open>range\<close> loops
  and the step \<open>(dx, dy)\<close>.\<close>

fun navigateMoves :: "(int list \<times> int list \<times> int \<times> int) list \<Rightarrow> model \<Rightarrow> model" where
  "navigateMoves [] m = m"
| "navigateMoves ((order1, order2, dx, dy) # rest) m =
     navigateMoves rest (navigateGrid order1 order2 dx dy m)"

definition resetActiveFacet :: "int list \<Rightarrow> model \<Rightarrow> model" where
  "resetActiveFacet order1 m =
     (let ds = dataSource m in
      if facet m = 0 then
        (let m1 = m\<lparr>activeFacet := [], activeFacetPos := (0, 0)\<rparr> in
         case firstKey order1 ds of
           None \<Rightarrow> m1
         | Some k \<Rightarrow> m1\<lparr>activeFacet := k\<rparr>)
      else
        (let m1 = m\<lparr>activeFacetPos := (0, 0)\<rparr> in
         case map_of ds (facet m) of
           None \<Rightarrow> m1
         | Some facetData \<Rightarrow>
             (case getSortedFacetKeys facetData of
                [] \<Rightarrow> m1
              | k # _ \<Rightarrow> m1\<lparr>activeFacet := k\<rparr>)))"

section \<open>Key presses: \<^verbatim>\<open>Update\<close>\<close>

text \<open>
  The scan of the \<^verbatim>\<open>enter\<close> case for the column of the pinned value:
  \<^verbatim>\<open>for facetCol, facetMap := range m.facetsData\<close>, stopping at the first column whose
  map has the key.
\<close>

fun findColumn :: "int list \<Rightarrow> facetTable \<Rightarrow> string \<Rightarrow> int option" where
  "findColumn [] fd a = None"
| "findColumn (facetCol # rest) fd a =
     (if mapHas (mapGet fd facetCol []) a then Some facetCol else findColumn rest fd a)"

definition togglePin :: "int list \<Rightarrow> model \<Rightarrow> model" where
  \<comment> \<open>the \<^verbatim>\<open>enter\<close> case up to and including the assignment of \<^verbatim>\<open>isFiltered\<close>\<close>
  "togglePin order1 m =
     (let a = activeFacet m;
          m1 = (if mapGet (pinnedFacets m) a False
                then m\<lparr>pinnedFacets := AList.delete a (pinnedFacets m),
                       pinnedFacetsColumn := AList.delete a (pinnedFacetsColumn m)\<rparr>
                else
                  (let m' = m\<lparr>pinnedFacets := AList.update a True (pinnedFacets m)\<rparr> in
                   if facet m > 0
                   then m'\<lparr>pinnedFacetsColumn := AList.update a (facet m) (pinnedFacetsColumn m')\<rparr>
                   else (case findColumn order1 (facetsData m') a of
                           None \<Rightarrow> m'
                         | Some facetCol \<Rightarrow>
                             m'\<lparr>pinnedFacetsColumn :=
                                   AList.update a facetCol (pinnedFacetsColumn m')\<rparr>)))
      in m1\<lparr>isFiltered := length (pinnedFacets m1) > 0\<rparr>)"

definition keyEnter :: "(string \<Rightarrow> real option) \<Rightarrow> int list \<Rightarrow> model \<Rightarrow> model option" where
  "keyEnter pf order1 m =
     (if activeFacet m \<noteq> [] then
        (let m2 = togglePin order1 m in
         if isFiltered m2 then regenerateFilteredData pf m2 else Some m2)
      else Some m)"

definition maxFacet :: "facetTable \<Rightarrow> int" where
  "maxFacet ds = foldl (\<lambda>mx k. if k > mx then k else mx) 0 (mapKeys ds)"

definition Update ::
  "(string \<Rightarrow> real option) \<Rightarrow> int list \<Rightarrow> int list \<Rightarrow> string \<Rightarrow> model \<Rightarrow> model option" where
  \<comment> \<open>the \<^verbatim>\<open>tea.KeyMsg\<close> case; \<open>key\<close> is \<^verbatim>\<open>msg.String()\<close>\<close>
  "Update pf order1 order2 key m =
     (if key = ''ctrl+c'' \<or> key = ''q'' then Some m
      else if key = ''a'' then
        (if facet m > 0
         then Some (resetActiveFacet order1 (m\<lparr>facet := facet m - 1, scrollOffset := 0\<rparr>))
         else Some m)
      else if key = ''d'' then
        (let mf = maxFacet (dataSource m) in
         if facet m = 0 \<and> mf > 0
         then Some (resetActiveFacet order1 (m\<lparr>facet := 1, scrollOffset := 0\<rparr>))
         else if facet m < mf
         then Some (resetActiveFacet order1 (m\<lparr>facet := facet m + 1, scrollOffset := 0\<rparr>))
         else Some m)
      else if key = ''left'' then Some (navigateGrid order1 order2 (-1) 0 m)
      else if key = ''right'' then Some (navigateGrid order1 order2 1 0 m)
      else if key = ''0'' then
        Some (resetActiveFacet order1 (m\<lparr>facet := 0, scrollOffset := 0\<rparr>))
      else if key = ''k'' then
        Some (if scrollOffset m - 1 < 0 then m\<lparr>scrollOffset := 0\<rparr>
              else m\<lparr>scrollOffset := scrollOffset m - 1\<rparr>)
      else if key = ''j'' then Some (m\<lparr>scrollOffset := scrollOffset m + 1\<rparr>)
      else if key = ''up'' then Some (navigateGrid order1 order2 0 (-1) m)
      else if key = ''down'' then Some (navigateGrid order1 order2 0 1 m)
      else if key = ''enter'' then keyEnter pf order1 m
      else Some m)"

text \<open>
  The \<^verbatim>\<open>tickMsg\<close> case: every line waiting in the channel goes through
  \<^verbatim>\<open>processLine\<close>. The reader goroutine and the channel are not modelled; \<open>lines\<close>
  are the lines the tick finds.
\<close>

fun drainLines :: "(string \<Rightarrow> real option) \<Rightarrow> model \<Rightarrow> string list \<Rightarrow> model option" where
  "drainLines pf m [] = Some m"
| "drainLines pf m (line # rest) =
     (case processLine pf m line of
        None \<Rightarrow> None
      | Some m' \<Rightarrow> drainLines pf m' rest)"

section \<open>Runs of the program\<close>

definition initialModel :: "int \<Rightarrow> model" where
  \<comment> \<open>the state built in \<^verbatim>\<open>main\<close>; \<open>facetFlag\<close> is the \<^verbatim>\<open>-facet\<close> flag\<close>
  "initialModel facetFlag =
     \<lparr>facetsData = [], storedLines = [], totalLogCount = 0, facet = facetFlag,
      winWidth = 80, winHeight = 24, scrollOffset = 0, stringValues = [],
      activeFacet = [], activeFacetPos = (0, 0), facetPositions = [],
      gridColumns = 0, pinnedFacets = [], pinnedFacetsColumn = [],
      filteredData = [], isFiltered = False\<rparr>"

text \<open>
  The visiting orders given with a key press fit the state when they are possible
  orders of the map the key's loops range over: the full table for the scan of
  \<open>enter\<close>, the data source on display for the other keys.
\<close>

definition ordersFit :: "string \<Rightarrow> model \<Rightarrow> int list \<Rightarrow> int list \<Rightarrow> bool" where
  "ordersFit key m order1 order2 =
     (if key = ''enter'' then rangeOrder (facetsData m) order1
      else rangeOrder (dataSource m) order1 \<and> rangeOrder (dataSource m) order2)"

text \<open>
  The states the program can be in: it starts in \<open>initialModel\<close> and handles ticks, key
  presses and changes of the window size (\<^verbatim>\<open>tea.WindowSizeMsg\<close>) one after the other.
\<close>

inductive reachable :: "(string \<Rightarrow> real option) \<Rightarrow> model \<Rightarrow> bool"
  for pf :: "string \<Rightarrow> real option" where
  start: "reachable pf (initialModel facetFlag)"
| tick: "reachable pf m \<Longrightarrow> drainLines pf m lines = Some m' \<Longrightarrow> reachable pf m'"
| key: "reachable pf m \<Longrightarrow> ordersFit k m order1 order2 \<Longrightarrow>
        Update pf order1 order2 k m = Some m' \<Longrightarrow> reachable pf m'"
| resize: "reachable pf m \<Longrightarrow> reachable pf (m\<lparr>winWidth := w, winHeight := h\<rparr>)"

text \<open>
  An invariant of the runs: every column a pin is bound to is at least 0, and every
  column of the full table is at least 1.
\<close>

definition columnsSound :: "model \<Rightarrow> bool" where
  "columnsSound m =
     ((\<forall>(v, c) \<in> set (pinnedFacetsColumn m). 0 \<le> c)
      \<and> (\<forall>c \<in> set (mapKeys (facetsData m)). 1 \<le> c))"

section \<open>Histogram bins: \<^verbatim>\<open>createVerticalHistogram\<close>\<close>






section \<open>A parser for the examples\<close>

text \<open>
  The examples below need a concrete \<open>pf\<close>. \<open>exampleFloat\<close> reads the four numbers of
  the README's sample input as \<^verbatim>\<open>strconv.ParseFloat\<close> does and rejects the other
  strings used in the examples, none of which is a number.
\<close>

definition exampleFloat :: "string \<Rightarrow> real option" where
  "exampleFloat s =
     (if s = ''10.5'' then Some 10.5
      else if s = ''15.2'' then Some 15.2
      else if s = ''8.7'' then Some 8.7
      else if s = ''12.1'' then Some 12.1
      else None)"

section \<open>Example states\<close>

definition lineRedSeattle :: string where
  "lineRedSeattle = ''10.5'' @ tab # ''red'' @ tab # ''seattle''"


definition readmeLines :: "string list" where
  \<comment> \<open>the sample input of the README\<close>
  "readmeLines =
     [''10.5'' @ tab # ''red'' @ tab # ''seattle'',
      ''15.2'' @ tab # ''red'' @ tab # ''san jose'',
      ''8.7'' @ tab # ''blue'' @ tab # ''seattle'',
      ''12.1'' @ tab # ''blue'' @ tab # ''san jose'']"

definition readmeTable :: facetTable where
  "readmeTable =
     [(1, [(''red'', [10.5, 15.2]), (''blue'', [8.7, 12.1])]),
      (2, [(''seattle'', [10.5, 8.7]), (''san jose'', [15.2, 12.1])])]"

definition readmeState :: model where
  \<comment> \<open>the state after the sample input has been read, before any key is pressed\<close>
  "readmeState = (initialModel 0)\<lparr>facetsData := readmeTable, storedLines := readmeLines,
      totalLogCount := 4\<rparr>"

definition redSelected :: model where
  \<comment> \<open>\<open>readmeState\<close> after the key \<open>left\<close>, which selects the first ranked key\<close>
  "redSelected = readmeState\<lparr>activeFacet := ''red''\<rparr>"

definition redPinned :: model where
  \<comment> \<open>\<open>redSelected\<close> after the key \<open>enter\<close>, which pins \<open>red\<close>\<close>
  "redPinned = redSelected\<lparr>pinnedFacets := [(''red'', True)],
      pinnedFacetsColumn := [(''red'', 1)], isFiltered := True,
      filteredData :=
        [(1, [(''red'', [10.5, 15.2])]),
         (2, [(''seattle'', [10.5]), (''san jose'', [15.2])])]\<rparr>"

definition crossLines :: "string list" where
  \<comment> \<open>two records in which the same values stand in different columns\<close>
  "crossLines =
     [''10.5'' @ tab # ''east'' @ tab # ''west'',
      ''15.2'' @ tab # ''west'' @ tab # ''east'']"

definition crossTable :: facetTable where
  "crossTable =
     [(1, [(''east'', [10.5]), (''west'', [15.2])]),
      (2, [(''west'', [10.5]), (''east'', [15.2])])]"

definition crossState :: model where
  \<comment> \<open>\<open>crossLines\<close> have been read and \<open>east\<close> is selected\<close>
  "crossState = (initialModel 0)\<lparr>facetsData := crossTable, storedLines := crossLines,
      totalLogCount := 2, activeFacet := ''east''\<rparr>"

definition blueSelected :: model where
  \<comment> \<open>\<open>readmeState\<close> after the keys \<open>d\<close> and \<open>down\<close>: column 1 is shown, \<open>blue\<close> selected\<close>
  "blueSelected = readmeState\<lparr>facet := 1, activeFacet := ''blue'', activeFacetPos := (1, 0)\<rparr>"

definition blueSelectedAll :: model where
  \<comment> \<open>\<open>redSelected\<close> after the key \<open>down\<close>: all facets are shown, \<open>blue\<close> selected\<close>
  "blueSelectedAll = readmeState\<lparr>activeFacet := ''blue''\<rparr>"

definition redColumn :: model where
  \<comment> \<open>\<open>readmeState\<close> after the key \<open>d\<close>: column 1 is shown, \<open>red\<close> selected\<close>
  "redColumn = readmeState\<lparr>facet := 1, activeFacet := ''red''\<rparr>"

section \<open>The pin filter\<close>

lemma pinsAdmit_iff:
  assumes "\<forall>(v, a) \<in> set pins. 0 \<le> mapGet cols v 0"
  shows "pinsAdmit pins cols parts =
         Some (\<forall>(v, a) \<in> set pins. a \<longrightarrow> mapGet cols v 0 < int (length parts) \<longrightarrow>
                   parts ! nat (mapGet cols v 0) = v)"
  using assms
  by (induction pins cols parts rule: pinsAdmit.induct) (auto simp: Let_def)

lemma SplitTab_nonempty: "\<not> length (SplitTab s) < 1"
  by (cases s) (auto split: list.splits)

lemma TrimSpace_lineRedSeattle: "TrimSpace lineRedSeattle = lineRedSeattle"
  by (simp add: lineRedSeattle_def TrimSpace_def stripSeqs.simps spaceSeqs_def tab_def)

lemma SplitTab_lineRedSeattle: "SplitTab lineRedSeattle = [''10.5'', ''red'', ''seattle'']"
  by (simp add: lineRedSeattle_def tab_def)

lemma filtered_pass_result:
  assumes "\<forall>(v, a) \<in> set (pinnedFacets m). 0 \<le> mapGet (pinnedFacetsColumn m) v 0"
    and "TrimSpace line \<noteq> []"
  shows "processLineWithFilter pf m line True =
     Some (if (\<forall>(v, a) \<in> set (pinnedFacets m). a \<longrightarrow>
                 mapGet (pinnedFacetsColumn m) v 0 < int (length (SplitTab (TrimSpace line))) \<longrightarrow>
                 SplitTab (TrimSpace line) ! nat (mapGet (pinnedFacetsColumn m) v 0) = v)
           then (case pf (SplitTab (TrimSpace line) ! 0) of
                   None \<Rightarrow> m
                 | Some x \<Rightarrow>
                     m\<lparr>filteredData :=
                         addFacets (filteredData m) 1 (tl (SplitTab (TrimSpace line))) x\<rparr>)
           else m)"
proof (cases "pinnedFacets m")
  case Nil
  then show ?thesis
    using assms(2) SplitTab_nonempty [of "TrimSpace line"]
    by (simp add: processLineWithFilter_def Let_def split: option.splits)
next
  case (Cons p ps)
  then have "length (pinnedFacets m) > 0" by simp
  then show ?thesis
    using assms(2) SplitTab_nonempty [of "TrimSpace line"]
      pinsAdmit_iff [OF assms(1), of "SplitTab (TrimSpace line)"]
    by (simp add: processLineWithFilter_def Let_def split: option.splits)
qed

section \<open>What one pass over a line changes\<close>

lemma unfiltered_pass_result:
  "processLineWithFilter pf m line False =
     Some (if TrimSpace line = [] then m
           else (case pf (SplitTab (TrimSpace line) ! 0) of
                   None \<Rightarrow>
                     m\<lparr>stringValues :=
                         AList.update (SplitTab (TrimSpace line) ! 0)
                           (mapGet (stringValues m) (SplitTab (TrimSpace line) ! 0) 0 + 1)
                           (stringValues m),
                       totalLogCount := totalLogCount m + 1\<rparr>
                 | Some x \<Rightarrow>
                     m\<lparr>totalLogCount := totalLogCount m + 1,
                       facetsData := addFacets (facetsData m) 1 (tl (SplitTab (TrimSpace line))) x\<rparr>))"
  using SplitTab_nonempty [of "TrimSpace line"]
  by (simp add: processLineWithFilter_def Let_def split: option.splits)

lemma filtered_pass_frame:
  assumes "processLineWithFilter pf m line True = Some m'"
  shows "\<exists>t. m' = m\<lparr>filteredData := t\<rparr>"
proof -
  have keep: "\<exists>t. m = m\<lparr>filteredData := t\<rparr>"
    by (rule exI [of _ "filteredData m"]) simp
  show ?thesis
  proof (cases "TrimSpace line = []")
    case True
    with assms keep show ?thesis by (simp add: processLineWithFilter_def)
  next
    case False
    let ?parts = "SplitTab (TrimSpace line)"
    let ?verdict = "if length (pinnedFacets m) > 0
        then pinsAdmit (pinnedFacets m) (pinnedFacetsColumn m) ?parts else Some True"
    from assms False obtain admitted where v: "?verdict = Some admitted"
      using SplitTab_nonempty [of "TrimSpace line"]
      by (cases ?verdict) (simp_all add: processLineWithFilter_def Let_def)
    show ?thesis
    proof (cases admitted)
      case False
      with assms \<open>TrimSpace line \<noteq> []\<close> v keep show ?thesis
        using SplitTab_nonempty [of "TrimSpace line"]
        by (simp add: processLineWithFilter_def Let_def)
    next
      case True
      show ?thesis
      proof (cases "pf (?parts ! 0)")
        case None
        with assms \<open>TrimSpace line \<noteq> []\<close> v True keep show ?thesis
          using SplitTab_nonempty [of "TrimSpace line"]
          by (simp add: processLineWithFilter_def Let_def)
      next
        case (Some x)
        with assms \<open>TrimSpace line \<noteq> []\<close> v True
        have "m' = m\<lparr>filteredData := addFacets (filteredData m) 1 (tl ?parts) x\<rparr>"
          using SplitTab_nonempty [of "TrimSpace line"]
          by (simp add: processLineWithFilter_def Let_def)
        then show ?thesis by blast
      qed
    qed
  qed
qed

lemma filtered_pass_empty:
  "TrimSpace line = [] \<Longrightarrow> processLineWithFilter pf m line True = Some m"
  by (simp add: processLineWithFilter_def)

lemma filtered_pass_returns:
  assumes "\<forall>(v, a) \<in> set (pinnedFacets m). 0 \<le> mapGet (pinnedFacetsColumn m) v 0"
  shows "\<exists>m'. processLineWithFilter pf m line True = Some m'"
proof (cases "TrimSpace line = []")
  case True
  then show ?thesis by (simp add: filtered_pass_empty)
next
  case False
  from filtered_pass_result [OF assms False] show ?thesis by blast
qed

lemma replayLines_frame:
  "replayLines pf m ls = Some m' \<Longrightarrow> \<exists>t. m' = m\<lparr>filteredData := t\<rparr>"
proof (induction ls arbitrary: m)
  case Nil
  then have "m' = m\<lparr>filteredData := filteredData m\<rparr>" by simp
  then show ?case by blast
next
  case (Cons l ls)
  then obtain m1 where 1: "processLineWithFilter pf m l True = Some m1"
    and 2: "replayLines pf m1 ls = Some m'"
    by (auto split: option.splits)
  from filtered_pass_frame [OF 1] obtain t1 where "m1 = m\<lparr>filteredData := t1\<rparr>" by blast
  moreover from Cons.IH [OF 2] obtain t where "m' = m1\<lparr>filteredData := t\<rparr>" by blast
  ultimately have "m' = m\<lparr>filteredData := t\<rparr>" by simp
  then show ?case by blast
qed

lemma replayLines_returns:
  assumes "\<forall>(v, a) \<in> set (pinnedFacets m). 0 \<le> mapGet (pinnedFacetsColumn m) v 0"
  shows "\<exists>m'. replayLines pf m ls = Some m'"
  using assms
proof (induction ls arbitrary: m)
  case Nil
  then show ?case by simp
next
  case (Cons l ls)
  from filtered_pass_returns [OF Cons.prems] obtain m1 where
    1: "processLineWithFilter pf m l True = Some m1" by blast
  from filtered_pass_frame [OF 1] obtain t1 where "m1 = m\<lparr>filteredData := t1\<rparr>" by blast
  with Cons.prems have "\<forall>(v, a) \<in> set (pinnedFacets m1). 0 \<le> mapGet (pinnedFacetsColumn m1) v 0"
    by simp
  from Cons.IH [OF this] 1 show ?case by simp
qed

lemma regenerate_frame:
  assumes "regenerateFilteredData pf m = Some m'"
  shows "\<exists>t. m' = m\<lparr>filteredData := t\<rparr>"
proof -
  from assms replayLines_frame obtain t where
    "m' = (m\<lparr>filteredData := []\<rparr>)\<lparr>filteredData :=
             foldl (\<lambda>t facetCol. AList.update facetCol [] t) [] (mapKeys (facetsData m))\<rparr>
           \<lparr>filteredData := t\<rparr>"
    unfolding regenerateFilteredData_def Let_def by fastforce
  then have "m' = m\<lparr>filteredData := t\<rparr>" by simp
  then show ?thesis by blast
qed

lemma regenerate_returns:
  assumes "\<forall>(v, a) \<in> set (pinnedFacets m). 0 \<le> mapGet (pinnedFacetsColumn m) v 0"
  shows "\<exists>m'. regenerateFilteredData pf m = Some m'"
  unfolding regenerateFilteredData_def Let_def
  using assms by (intro replayLines_returns) simp


lemma mapGet_update:
  "mapGet (AList.update k v al) k' z = (if k' = k then v else mapGet al k' z)"
  by (simp add: mapGet_def update_conv')

lemma processLine_empty:
  assumes "TrimSpace line = []"
  shows "processLine pf m line = Some (m\<lparr>storedLines := storedLines m @ [line]\<rparr>)"
  using assms by (simp add: processLine_def Let_def unfiltered_pass_result filtered_pass_empty)

lemma processLine_category:
  assumes "pinsWellFormed m" and "TrimSpace line \<noteq> []"
    and "pf (SplitTab (TrimSpace line) ! 0) = None"
  shows "processLine pf m line =
     Some (m\<lparr>storedLines := storedLines m @ [line],
             stringValues :=
               AList.update (SplitTab (TrimSpace line) ! 0)
                 (mapGet (stringValues m) (SplitTab (TrimSpace line) ! 0) 0 + 1)
                 (stringValues m),
             totalLogCount := totalLogCount m + 1\<rparr>)"
proof -
  let ?m2 = "m\<lparr>storedLines := storedLines m @ [line],
             stringValues :=
               AList.update (SplitTab (TrimSpace line) ! 0)
                 (mapGet (stringValues m) (SplitTab (TrimSpace line) ! 0) 0 + 1)
                 (stringValues m),
             totalLogCount := totalLogCount m + 1\<rparr>"
  have wf: "\<forall>(v, a) \<in> set (pinnedFacets ?m2). 0 \<le> mapGet (pinnedFacetsColumn ?m2) v 0"
    using assms(1) by (simp add: pinsWellFormed_def)
  have "processLineWithFilter pf ?m2 line True = Some ?m2"
    using filtered_pass_result [OF wf assms(2), of pf] assms(3) by simp
  then show ?thesis
    using assms(2,3) by (simp add: processLine_def Let_def unfiltered_pass_result)
qed

lemma processLine_observation:
  assumes "pinsWellFormed m" and "TrimSpace line \<noteq> []"
    and "pf (SplitTab (TrimSpace line) ! 0) = Some x"
  shows "\<exists>t. processLine pf m line =
     Some (m\<lparr>storedLines := storedLines m @ [line],
             totalLogCount := totalLogCount m + 1,
             facetsData := addFacets (facetsData m) 1 (tl (SplitTab (TrimSpace line))) x,
             filteredData := t\<rparr>)"
proof -
  let ?m2 = "m\<lparr>storedLines := storedLines m @ [line],
             totalLogCount := totalLogCount m + 1,
             facetsData := addFacets (facetsData m) 1 (tl (SplitTab (TrimSpace line))) x\<rparr>"
  have wf: "\<forall>(v, a) \<in> set (pinnedFacets ?m2). 0 \<le> mapGet (pinnedFacetsColumn ?m2) v 0"
    using assms(1) by (simp add: pinsWellFormed_def)
  have u: "processLineWithFilter pf (m\<lparr>storedLines := storedLines m @ [line]\<rparr>) line False
      = Some ?m2"
    using assms(2,3) by (simp add: unfiltered_pass_result)
  show ?thesis
  proof (cases "isFiltered m")
    case False
    with u have "processLine pf m line = Some (?m2\<lparr>filteredData := filteredData m\<rparr>)"
      by (simp add: processLine_def Let_def)
    then show ?thesis by blast
  next
    case True
    from filtered_pass_returns [OF wf] obtain m3 where
      3: "processLineWithFilter pf ?m2 line True = Some m3" by blast
    from filtered_pass_frame [OF 3] obtain t where "m3 = ?m2\<lparr>filteredData := t\<rparr>" by blast
    with u 3 True have "processLine pf m line = Some (?m2\<lparr>filteredData := t\<rparr>)"
      by (simp add: processLine_def Let_def)
    then show ?thesis by blast
  qed
qed

section \<open>The sample input of the README\<close>

lemma TrimSpace_readme: "map TrimSpace readmeLines = readmeLines"
  by (simp add: readmeLines_def TrimSpace_def stripSeqs.simps spaceSeqs_def tab_def)

lemma readme_reached: "drainLines exampleFloat (initialModel 0) readmeLines = Some readmeState"
  using TrimSpace_readme
  by (simp add: readmeLines_def processLine_def unfiltered_pass_result initialModel_def
      readmeState_def readmeTable_def tab_def exampleFloat_def addSample_def mapGet_def)

lemma ranked_readme:
  "getSortedFacetKeys (mapGet readmeTable 1 []) = [''red'', ''blue'']"
  "getSortedFacetKeys (mapGet readmeTable 2 []) = [''san jose'', ''seattle'']"
  by (simp_all add: getSortedFacetKeys_def readmeTable_def mapKeys_def facetLess_def
      mapGet_def computeMean_def)

lemma dataSource_readme: "dataSource readmeState = readmeTable"
  by (simp add: dataSource_def readmeState_def initialModel_def)

lemma readmeState_fields:
  "facet readmeState = 0" "activeFacet readmeState = []" "isFiltered readmeState = False"
  "facetsData readmeState = readmeTable" "gridColumns readmeState = 0"
  "winWidth readmeState = 80" "pinnedFacets readmeState = []"
  by (simp_all add: readmeState_def initialModel_def)

lemma Update_arrows:
  "Update pf o1 o2 ''left'' m = Some (navigateGrid o1 o2 (-1) 0 m)"
  "Update pf o1 o2 ''right'' m = Some (navigateGrid o1 o2 1 0 m)"
  "Update pf o1 o2 ''up'' m = Some (navigateGrid o1 o2 0 (-1) m)"
  "Update pf o1 o2 ''down'' m = Some (navigateGrid o1 o2 0 1 m)"
  by (simp_all add: Update_def)

section \<open>Navigation\<close>

lemma indexFrom_missing: "a \<notin> set ks \<Longrightarrow> indexFrom i ks a = -1"
  by (induction ks arbitrary: i) auto

lemma indexFrom_found:
  "a \<in> set ks \<Longrightarrow> \<exists>n < length ks. indexFrom i ks a = i + int n \<and> ks ! n = a"
proof (induction ks arbitrary: i)
  case Nil
  then show ?case by simp
next
  case (Cons k ks)
  show ?case
  proof (cases "k = a")
    case True
    then have "indexFrom i (k # ks) a = i + int 0 \<and> (k # ks) ! 0 = a" by simp
    then show ?thesis by blast
  next
    case False
    with Cons.prems have "a \<in> set ks" by simp
    from Cons.IH [OF this, of "i + 1"] obtain n where
      n: "n < length ks" "indexFrom (i + 1) ks a = i + 1 + int n" "ks ! n = a" by blast
    with False have "Suc n < length (k # ks)
        \<and> indexFrom i (k # ks) a = i + int (Suc n) \<and> (k # ks) ! Suc n = a"
      by simp
    then show ?thesis by blast
  qed
qed

lemma indexOf_found:
  assumes "a \<in> set ks"
  shows "0 \<le> indexOf ks a \<and> indexOf ks a < int (length ks) \<and> ks ! nat (indexOf ks a) = a"
proof -
  from indexFrom_found [OF assms, of 0] obtain n where
    "n < length ks" "indexFrom 0 ks a = int n" "ks ! n = a" by auto
  then show ?thesis by (simp add: indexOf_def)
qed

lemma indexOf_missing: "a \<notin> set ks \<Longrightarrow> indexOf ks a = -1"
  by (simp add: indexOf_def indexFrom_missing)

lemma indexOf_mem: "indexOf ks a \<noteq> -1 \<longleftrightarrow> a \<in> set ks"
  using indexOf_found [of a ks] indexOf_missing [of a ks] by auto

lemma goDiv_nonneg: "0 \<le> a \<Longrightarrow> 0 < b \<Longrightarrow> goDiv a b = a div b"
  by (cases "a = 0") (simp_all add: goDiv_def)

lemma goMod_nonneg: "0 \<le> a \<Longrightarrow> 0 < b \<Longrightarrow> goMod a b = a mod b"
  by (simp add: goMod_def goDiv_nonneg minus_mult_div_eq_mod)

lemma gridWidth_pos: "1 \<le> gridWidth m"
  by (simp add: gridWidth_def)


lemma updatePosition_frame: "\<exists>p. updatePositionFromActiveFacet m = m\<lparr>activeFacetPos := p\<rparr>"
proof (cases "map_of (facetPositions m) (activeFacet m)")
  case None
  then have "updatePositionFromActiveFacet m = m\<lparr>activeFacetPos := activeFacetPos m\<rparr>"
    by (simp add: updatePositionFromActiveFacet_def)
  then show ?thesis by (rule exI)
next
  case (Some pos)
  then have "updatePositionFromActiveFacet m = m\<lparr>activeFacetPos := pos\<rparr>"
    by (simp add: updatePositionFromActiveFacet_def)
  then show ?thesis by (rule exI)
qed

lemma ensureVisible_frame: "\<exists>s. ensureActiveFacetVisible m = m\<lparr>scrollOffset := s\<rparr>"
proof -
  let ?row = "fst (activeFacetPos m)"
  let ?startRow = "goDiv (scrollOffset m) 15"
  let ?endRow = "goDiv (scrollOffset m + (winHeight m - 10)) 15"
  show ?thesis
  proof (cases "activeFacet m = [] \<or> \<not> mapHas (facetPositions m) (activeFacet m)")
    case True
    then have "ensureActiveFacetVisible m = m\<lparr>scrollOffset := scrollOffset m\<rparr>"
      by (auto simp: ensureActiveFacetVisible_def)
    then show ?thesis by (rule exI)
  next
    case False
    show ?thesis
    proof (cases "?row < ?startRow")
      case True
      with False have "ensureActiveFacetVisible m = m\<lparr>scrollOffset := ?row * 15\<rparr>"
        by (simp add: ensureActiveFacetVisible_def Let_def)
      then show ?thesis by (rule exI)
    next
      case up: False
      show ?thesis
      proof (cases "?row \<ge> ?endRow")
        case True
        with False up have "ensureActiveFacetVisible m
            = m\<lparr>scrollOffset := (?row - ?endRow + 1) * 15 + 1\<rparr>"
          by (simp add: ensureActiveFacetVisible_def Let_def)
        then show ?thesis by (rule exI)
      next
        case down: False
        with False up have "ensureActiveFacetVisible m = m\<lparr>scrollOffset := scrollOffset m\<rparr>"
          by (simp add: ensureActiveFacetVisible_def Let_def)
        then show ?thesis by (rule exI)
      qed
    qed
  qed
qed

lemma commit_frame:
  "\<exists>p s. ensureActiveFacetVisible (updatePositionFromActiveFacet (m\<lparr>activeFacet := a\<rparr>))
      = m\<lparr>activeFacet := a, activeFacetPos := p, scrollOffset := s\<rparr>"
proof -
  obtain p where p: "updatePositionFromActiveFacet (m\<lparr>activeFacet := a\<rparr>)
      = m\<lparr>activeFacet := a, activeFacetPos := p\<rparr>"
    using updatePosition_frame [of "m\<lparr>activeFacet := a\<rparr>"] by blast
  obtain s where s: "ensureActiveFacetVisible (m\<lparr>activeFacet := a, activeFacetPos := p\<rparr>)
      = m\<lparr>activeFacet := a, activeFacetPos := p, scrollOffset := s\<rparr>"
    using ensureVisible_frame [of "m\<lparr>activeFacet := a, activeFacetPos := p\<rparr>"] by blast
  have "ensureActiveFacetVisible (updatePositionFromActiveFacet (m\<lparr>activeFacet := a\<rparr>))
      = m\<lparr>activeFacet := a, activeFacetPos := p, scrollOffset := s\<rparr>"
    by (simp only: p s)
  then show ?thesis by blast
qed


lemma navigate_single:
  assumes f: "facet m > 0" and c: "map_of (dataSource m) (facet m) = Some fd"
    and k: "getSortedFacetKeys fd = keys" and n: "keys \<noteq> []"
  shows "activeFacet (navigateGrid o1 o2 dx dy m) =
         (let i = indexOf keys (activeFacet m);
              r = i div gridWidth m + dy;
              c = i mod gridWidth m + dx;
              t = r * gridWidth m + c
          in if i = -1 then keys ! 0
             else if r < 0 \<or> c < 0 \<or> t \<ge> int (length keys) then activeFacet m
             else keys ! nat t)
     \<and> (\<exists>a p s. navigateGrid o1 o2 dx dy m =
            m\<lparr>activeFacet := a, activeFacetPos := p, scrollOffset := s\<rparr>)"
proof -
  let ?i = "indexOf keys (activeFacet m)"
  let ?C = "gridWidth m"
  let ?r = "?i div ?C + dy"
  let ?c = "?i mod ?C + dx"
  let ?t = "?r * ?C + ?c"
  let ?nav = "navigateGrid o1 o2 dx dy m"
  from f have f0: "facet m \<noteq> 0" by simp
  from n have len: "length keys \<noteq> 0" by simp
  show ?thesis
  proof (cases "?i = -1")
    case True
    then have eq: "?nav =
        m\<lparr>activeFacet := keys ! 0, activeFacetPos := (0, 0), scrollOffset := scrollOffset m\<rparr>"
      using f f0 c k len by (simp add: navigateGrid_def Let_def)
    have 1: "activeFacet ?nav = keys ! 0" by (simp add: eq)
    have 2: "\<exists>a p s. ?nav = m\<lparr>activeFacet := a, activeFacetPos := p, scrollOffset := s\<rparr>"
      using eq by blast
    from 1 2 True show ?thesis by (simp add: Let_def)
  next
    case False
    then have mem: "activeFacet m \<in> set keys" by (simp add: indexOf_mem)
    from indexOf_found [OF mem] have i0: "0 \<le> ?i" by simp
    have C0: "0 < ?C" using gridWidth_pos [of m] by simp
    have d: "goDiv ?i ?C = ?i div ?C" and md: "goMod ?i ?C = ?i mod ?C"
      using i0 C0 by (simp_all add: goDiv_nonneg goMod_nonneg)
    show ?thesis
    proof (cases "?r < 0 \<or> ?c < 0 \<or> ?t \<ge> int (length keys)")
      case True
      then have "?nav = m"
        using f f0 c k len False d md by (auto simp: navigateGrid_def Let_def)
      then have eq: "?nav =
          m\<lparr>activeFacet := activeFacet m, activeFacetPos := activeFacetPos m,
            scrollOffset := scrollOffset m\<rparr>"
        by simp
      have 1: "activeFacet ?nav = activeFacet m" by (simp add: eq)
      have 2: "\<exists>a p s. ?nav = m\<lparr>activeFacet := a, activeFacetPos := p, scrollOffset := s\<rparr>"
        using eq by blast
      from 1 2 True False show ?thesis by (simp add: Let_def)
    next
      case ok: False
      then have rc: "\<not> (?r < 0 \<or> ?c < 0)" and lt: "?t < int (length keys)" by auto
      from rc C0 have t0: "0 \<le> ?t" by simp
      have "?nav = ensureActiveFacetVisible
              (m\<lparr>activeFacet := keys ! nat ?t, activeFacetPos := (?r, ?c)\<rparr>)"
        using f f0 c k len False d md rc t0 lt by (simp add: navigateGrid_def Let_def)
      moreover obtain s where
        "ensureActiveFacetVisible (m\<lparr>activeFacet := keys ! nat ?t, activeFacetPos := (?r, ?c)\<rparr>)
           = m\<lparr>activeFacet := keys ! nat ?t, activeFacetPos := (?r, ?c), scrollOffset := s\<rparr>"
        using ensureVisible_frame
          [of "m\<lparr>activeFacet := keys ! nat ?t, activeFacetPos := (?r, ?c)\<rparr>"]
        by auto
      ultimately have eq: "?nav =
          m\<lparr>activeFacet := keys ! nat ?t, activeFacetPos := (?r, ?c), scrollOffset := s\<rparr>"
        by simp
      have 1: "activeFacet ?nav = keys ! nat ?t" by (simp add: eq)
      have 2: "\<exists>a p s. ?nav = m\<lparr>activeFacet := a, activeFacetPos := p, scrollOffset := s\<rparr>"
        using eq by blast
      from 1 2 ok False show ?thesis by (simp add: Let_def)
    qed
  qed
qed


lemma navigate_all:
  assumes f: "facet m = 0"
  shows "activeFacet (navigateGrid o1 o2 dx dy m) =
         (let a0 = (if activeFacet m = []
                    then (case firstKey o1 (dataSource m) of None \<Rightarrow> [] | Some k \<Rightarrow> k)
                    else activeFacet m);
              allKeys = collectKeys o2 (dataSource m);
              i = indexOf allKeys a0
          in if a0 = [] \<or> allKeys = [] then a0
             else if i = -1 then allKeys ! 0
             else if dy > 0 then allKeys ! nat (min (i + 1) (int (length allKeys) - 1))
             else if dy < 0 then allKeys ! nat (max (i - 1) 0)
             else a0)
     \<and> (\<exists>a p s. navigateGrid o1 o2 dx dy m =
            m\<lparr>activeFacet := a, activeFacetPos := p, scrollOffset := s\<rparr>)"
proof -
  let ?a0 = "if activeFacet m = []
             then (case firstKey o1 (dataSource m) of None \<Rightarrow> [] | Some k \<Rightarrow> k)
             else activeFacet m"
  let ?m1 = "if activeFacet m = []
             then (case firstKey o1 (dataSource m) of None \<Rightarrow> m | Some k \<Rightarrow> m\<lparr>activeFacet := k\<rparr>)
             else m"
  let ?K = "collectKeys o2 (dataSource m)"
  let ?i = "indexOf ?K ?a0"
  let ?nav = "navigateGrid o1 o2 dx dy m"
  have m1: "?m1 = m\<lparr>activeFacet := ?a0\<rparr>"
    by (simp split: option.splits)
  have a1: "activeFacet ?m1 = ?a0"
    by (simp split: option.splits)
  have nav: "?nav =
      (if ?a0 = [] then m\<lparr>activeFacet := ?a0\<rparr>
       else if length ?K = 0 then m\<lparr>activeFacet := ?a0\<rparr>
       else if ?i = -1
         then updatePositionFromActiveFacet (m\<lparr>activeFacet := ?K ! 0\<rparr>)
       else if dy > 0
         then ensureActiveFacetVisible (updatePositionFromActiveFacet
                (m\<lparr>activeFacet := ?K ! nat (min (?i + 1) (int (length ?K) - 1))\<rparr>))
       else if dy < 0
         then ensureActiveFacetVisible (updatePositionFromActiveFacet
                (m\<lparr>activeFacet := ?K ! nat (max (?i - 1) 0)\<rparr>))
       else m\<lparr>activeFacet := ?a0\<rparr>)"
    unfolding navigateGrid_def Let_def a1 m1 using f
    by (simp add: min_def max_def)
  show ?thesis
  proof (cases "?a0 = [] \<or> ?K = []")
    case True
    with nav have "?nav = m\<lparr>activeFacet := ?a0\<rparr>" by auto
    then have eq: "?nav = m\<lparr>activeFacet := ?a0, activeFacetPos := activeFacetPos m,
        scrollOffset := scrollOffset m\<rparr>" by simp
    have 1: "activeFacet ?nav = ?a0" by (simp only: eq) simp
    have 2: "\<exists>a p s. ?nav = m\<lparr>activeFacet := a, activeFacetPos := p, scrollOffset := s\<rparr>"
      using eq by blast
    from 1 2 True show ?thesis by (simp add: Let_def)
  next
    case False
    then have ne: "?a0 \<noteq> []" "length ?K \<noteq> 0" by auto
    show ?thesis
    proof (cases "?i = -1")
      case True
      with nav ne have "?nav = updatePositionFromActiveFacet (m\<lparr>activeFacet := ?K ! 0\<rparr>)"
        by simp
      moreover obtain p where "updatePositionFromActiveFacet (m\<lparr>activeFacet := ?K ! 0\<rparr>)
          = m\<lparr>activeFacet := ?K ! 0, activeFacetPos := p\<rparr>"
        using updatePosition_frame [of "m\<lparr>activeFacet := ?K ! 0\<rparr>"] by blast
      ultimately have "?nav = m\<lparr>activeFacet := ?K ! 0, activeFacetPos := p\<rparr>"
        by simp
      then have eq: "?nav = m\<lparr>activeFacet := ?K ! 0, activeFacetPos := p,
          scrollOffset := scrollOffset m\<rparr>" by simp
      have 1: "activeFacet ?nav = ?K ! 0" by (simp only: eq) simp
      have 2: "\<exists>a p s. ?nav = m\<lparr>activeFacet := a, activeFacetPos := p, scrollOffset := s\<rparr>"
        using eq by blast
      from 1 2 True False show ?thesis by (simp add: Let_def)
    next
      case found: False
      show ?thesis
      proof (cases "dy > 0")
        case True
        let ?x = "?K ! nat (min (?i + 1) (int (length ?K) - 1))"
        from nav ne found True have "?nav =
            ensureActiveFacetVisible (updatePositionFromActiveFacet (m\<lparr>activeFacet := ?x\<rparr>))"
          by simp
        with commit_frame [where m = m and a = ?x] obtain p s where
          eq: "?nav = m\<lparr>activeFacet := ?x, activeFacetPos := p, scrollOffset := s\<rparr>"
          by auto
        have 1: "activeFacet ?nav = ?x" by (simp only: eq) simp
        have 2: "\<exists>a p s. ?nav = m\<lparr>activeFacet := a, activeFacetPos := p, scrollOffset := s\<rparr>"
          using eq by blast
        from 1 2 True False found show ?thesis by (simp add: Let_def)
      next
        case notdown: False
        show ?thesis
        proof (cases "dy < 0")
          case True
          let ?x = "?K ! nat (max (?i - 1) 0)"
          from nav ne found True notdown have "?nav =
              ensureActiveFacetVisible (updatePositionFromActiveFacet (m\<lparr>activeFacet := ?x\<rparr>))"
            by simp
          with commit_frame [where m = m and a = ?x] obtain p s where
            eq: "?nav = m\<lparr>activeFacet := ?x, activeFacetPos := p, scrollOffset := s\<rparr>"
            by auto
          have 1: "activeFacet ?nav = ?x" by (simp only: eq) simp
          have 2: "\<exists>a p s. ?nav = m\<lparr>activeFacet := a, activeFacetPos := p, scrollOffset := s\<rparr>"
            using eq by blast
          from 1 2 True False found notdown show ?thesis by (simp add: Let_def)
        next
          case still: False
          with nav ne found notdown have "?nav = m\<lparr>activeFacet := ?a0\<rparr>" by simp
          then have eq: "?nav = m\<lparr>activeFacet := ?a0, activeFacetPos := activeFacetPos m,
              scrollOffset := scrollOffset m\<rparr>" by simp
          have 1: "activeFacet ?nav = ?a0" by (simp only: eq) simp
          have 2: "\<exists>a p s. ?nav = m\<lparr>activeFacet := a, activeFacetPos := p, scrollOffset := s\<rparr>"
            using eq by blast
          from 1 2 False found notdown still show ?thesis by (simp add: Let_def)
        qed
      qed
    qed
  qed
qed


lemma collectKeys_set:
  "set (collectKeys ord ds) = (\<Union>c \<in> set ord. set (getSortedFacetKeys (mapGet ds c [])))"
  by (induction ord) auto

lemma collectKeys_order:
  "rangeOrder ds o1 \<Longrightarrow> rangeOrder ds o2 \<Longrightarrow> set (collectKeys o1 ds) = set (collectKeys o2 ds)"
  by (simp add: collectKeys_set rangeOrder_def)

lemma firstKey_None:
  "firstKey ord ds = None \<Longrightarrow> collectKeys ord ds = []"
  by (induction ord) (auto split: list.splits)

lemma firstKey_Some:
  "firstKey ord ds = Some k \<Longrightarrow> k \<in> set (collectKeys ord ds)"
  by (induction ord) (auto split: list.splits)

lemma firstKey_column:
  "firstKey ord ds = Some k \<Longrightarrow>
     \<exists>c \<in> set ord. \<exists>rest. getSortedFacetKeys (mapGet ds c []) = k # rest"
  by (induction ord) (auto split: list.splits)

lemma firstKey_empty:
  "firstKey ord ds = None \<Longrightarrow> \<forall>c \<in> set ord. getSortedFacetKeys (mapGet ds c []) = []"
  by (induction ord) (auto split: list.splits)

lemma navigate_keeps:
  assumes "\<exists>a p s. m' = m\<lparr>activeFacet := a, activeFacetPos := p, scrollOffset := s\<rparr>"
  shows "facet m' = facet m" and "dataSource m' = dataSource m" and "gridWidth m' = gridWidth m"
  using assms by (auto simp: dataSource_def gridWidth_def)

lemma navigate_single_in_keys:
  assumes "facet m > 0" and "map_of (dataSource m) (facet m) = Some fd"
    and "getSortedFacetKeys fd \<noteq> []"
  shows "activeFacet (navigateGrid o1 o2 dx dy m) \<in> set (getSortedFacetKeys fd)"
proof -
  let ?keys = "getSortedFacetKeys fd"
  let ?i = "indexOf ?keys (activeFacet m)"
  let ?r = "?i div gridWidth m + dy"
  let ?c = "?i mod gridWidth m + dx"
  let ?t = "?r * gridWidth m + ?c"
  from navigate_single [OF assms(1,2) refl assms(3), of o1 o2 dx dy]
  have nav: "activeFacet (navigateGrid o1 o2 dx dy m) =
      (if ?i = -1 then ?keys ! 0
       else if ?r < 0 \<or> ?c < 0 \<or> ?t \<ge> int (length ?keys) then activeFacet m
       else ?keys ! nat ?t)"
    by (simp add: Let_def)
  show ?thesis
  proof (cases "?i = -1")
    case True
    with nav assms(3) show ?thesis by simp
  next
    case False
    then have mem: "activeFacet m \<in> set ?keys" by (simp add: indexOf_mem)
    show ?thesis
    proof (cases "?r < 0 \<or> ?c < 0 \<or> ?t \<ge> int (length ?keys)")
      case True
      with nav False mem show ?thesis by simp
    next
      case ok: False
      have "0 < gridWidth m" using gridWidth_pos [of m] by simp
      with ok have t0: "0 \<le> ?t" by simp
      from ok have "?t < int (length ?keys)" by auto
      with t0 have "nat ?t < length ?keys" by (simp only: nat_less_iff)
      then have "?keys ! nat ?t \<in> set ?keys" by (rule nth_mem)
      with nav False ok show ?thesis by simp
    qed
  qed
qed

lemma navigate_all_in_keys:
  assumes f: "facet m = 0" and o: "set o1 = set o2"
    and n: "collectKeys o2 (dataSource m) \<noteq> []"
  shows "activeFacet (navigateGrid o1 o2 dx dy m) \<in> set (collectKeys o2 (dataSource m))"
proof -
  let ?a0 = "if activeFacet m = []
             then (case firstKey o1 (dataSource m) of None \<Rightarrow> [] | Some k \<Rightarrow> k)
             else activeFacet m"
  let ?K = "collectKeys o2 (dataSource m)"
  let ?i = "indexOf ?K ?a0"
  let ?N = "int (length ?K)"
  have same: "set (collectKeys o1 (dataSource m)) = set ?K"
    using o by (simp add: collectKeys_set)
  from navigate_all [OF f, of o1 o2 dx dy] n
  have nav: "activeFacet (navigateGrid o1 o2 dx dy m) =
      (if ?a0 = [] then ?a0
       else if ?i = -1 then ?K ! 0
       else if dy > 0 then ?K ! nat (min (?i + 1) (?N - 1))
       else if dy < 0 then ?K ! nat (max (?i - 1) 0)
       else ?a0)"
    by (simp add: Let_def)
  from n have N: "0 < ?N" by simp
  show ?thesis
  proof (cases "?a0 = []")
    case True
    have "?a0 \<in> set ?K"
    proof (cases "firstKey o1 (dataSource m)")
      case None
      from firstKey_None [OF None] same n show ?thesis by simp
    next
      case (Some k)
      from firstKey_Some [OF Some] same True Some show ?thesis
        by (simp split: if_splits)
    qed
    with nav True show ?thesis by simp
  next
    case a: False
    show ?thesis
    proof (cases "?i = -1")
      case True
      from n have "?K ! 0 \<in> set ?K" by simp
      with nav a True show ?thesis by simp
    next
      case False
      then have mem: "?a0 \<in> set ?K" by (simp add: indexOf_mem)
      from indexOf_found [OF mem] have i: "0 \<le> ?i" "?i < ?N" by simp_all
      have "nat (min (?i + 1) (?N - 1)) < length ?K" using i N by simp
      then have down: "?K ! nat (min (?i + 1) (?N - 1)) \<in> set ?K" by (rule nth_mem)
      have "nat (max (?i - 1) 0) < length ?K" using i N by simp
      then have up: "?K ! nat (max (?i - 1) 0) \<in> set ?K" by (rule nth_mem)
      from nav a False mem down up show ?thesis by simp
    qed
  qed
qed

lemma navigate_frame:
  "\<exists>a p s. navigateGrid o1 o2 dx dy m =
     m\<lparr>activeFacet := a, activeFacetPos := p, scrollOffset := s\<rparr>"
proof -
  have keep: "m = m\<lparr>activeFacet := activeFacet m, activeFacetPos := activeFacetPos m,
      scrollOffset := scrollOffset m\<rparr>" by simp
  consider (all) "facet m = 0" | (neg) "facet m < 0"
    | (gone) "facet m > 0" "map_of (dataSource m) (facet m) = None"
    | (none) fd where "facet m > 0" "map_of (dataSource m) (facet m) = Some fd"
        "getSortedFacetKeys fd = []"
    | (some) fd where "facet m > 0" "map_of (dataSource m) (facet m) = Some fd"
        "getSortedFacetKeys fd \<noteq> []"
    by (cases "map_of (dataSource m) (facet m)") force+
  then show ?thesis
  proof cases
    case all
    from navigate_all [OF all] show ?thesis by blast
  next
    case neg
    then have "navigateGrid o1 o2 dx dy m = m" by (simp add: navigateGrid_def)
    with keep show ?thesis by metis
  next
    case gone
    then have "navigateGrid o1 o2 dx dy m = m" by (simp add: navigateGrid_def)
    with keep show ?thesis by metis
  next
    case none
    then have "navigateGrid o1 o2 dx dy m = m" by (simp add: navigateGrid_def)
    with keep show ?thesis by metis
  next
    case some
    from navigate_single [OF some(1,2) refl some(3)] show ?thesis by blast
  qed
qed

lemma navigateMoves_single:
  assumes "facet m > 0" and "map_of (dataSource m) (facet m) = Some fd"
    and "getSortedFacetKeys fd \<noteq> []"
    and "moves \<noteq> [] \<or> activeFacet m \<in> set (getSortedFacetKeys fd)"
  shows "activeFacet (navigateMoves moves m) \<in> set (getSortedFacetKeys fd)"
  using assms
proof (induction moves arbitrary: m)
  case Nil
  then show ?case by simp
next
  case (Cons mv moves)
  obtain o1 o2 dx dy where mv: "mv = (o1, o2, dx, dy)" by (cases mv) auto
  let ?m' = "navigateGrid o1 o2 dx dy m"
  from navigate_keeps [OF navigate_frame [of o1 o2 dx dy m]]
  have k: "facet ?m' = facet m" "dataSource ?m' = dataSource m" by simp_all
  have "activeFacet ?m' \<in> set (getSortedFacetKeys fd)"
    using Cons.prems(1,2,3) by (rule navigate_single_in_keys)
  with Cons.IH [of ?m'] Cons.prems(1,2,3) k mv show ?case by simp
qed

lemma navigateMoves_all:
  assumes "facet m = 0"
    and "\<forall>(o1, o2, dx, dy) \<in> set moves.
           rangeOrder (dataSource m) o1 \<and> rangeOrder (dataSource m) o2"
    and "rangeOrder (dataSource m) ord" and "collectKeys ord (dataSource m) \<noteq> []"
    and "moves \<noteq> [] \<or> activeFacet m \<in> set (collectKeys ord (dataSource m))"
  shows "activeFacet (navigateMoves moves m) \<in> set (collectKeys ord (dataSource m))"
  using assms
proof (induction moves arbitrary: m)
  case Nil
  then show ?case by simp
next
  case (Cons mv moves)
  obtain o1 o2 dx dy where mv: "mv = (o1, o2, dx, dy)" by (cases mv) auto
  let ?m' = "navigateGrid o1 o2 dx dy m"
  let ?ds = "dataSource m"
  from navigate_keeps [OF navigate_frame [of o1 o2 dx dy m]]
  have k: "facet ?m' = facet m" "dataSource ?m' = ?ds" by simp_all
  from Cons.prems(2) mv have o: "rangeOrder ?ds o1" "rangeOrder ?ds o2" by simp_all
  then have s: "set o1 = set o2" by (simp add: rangeOrder_def)
  have e: "set (collectKeys o2 ?ds) = set (collectKeys ord ?ds)"
    using o(2) Cons.prems(3) by (rule collectKeys_order)
  with Cons.prems(4) have "collectKeys o2 ?ds \<noteq> []" by auto
  from navigate_all_in_keys [OF Cons.prems(1) s this] e
  have "activeFacet ?m' \<in> set (collectKeys ord ?ds)" by simp
  with Cons.IH [of ?m'] Cons.prems k mv show ?case by simp
qed

section \<open>Key presses on the example states\<close>

lemma Update_enter: "Update pf o1 o2 ''enter'' m = keyEnter pf o1 m"
  by (simp add: Update_def)

lemma Update_zero:
  "Update pf o1 o2 ''0'' m = Some (resetActiveFacet o1 (m\<lparr>facet := 0, scrollOffset := 0\<rparr>))"
  by (simp add: Update_def)

lemma TrimSpace_cross: "map TrimSpace crossLines = crossLines"
  by (simp add: crossLines_def TrimSpace_def stripSeqs.simps spaceSeqs_def tab_def)

lemma cross_reached:
  "drainLines exampleFloat (initialModel 0) crossLines
     = Some (crossState\<lparr>activeFacet := []\<rparr>)"
  using TrimSpace_cross
  by (simp add: crossLines_def processLine_def unfiltered_pass_result initialModel_def
      crossState_def crossTable_def tab_def exampleFloat_def addSample_def mapGet_def)

lemma ranked_cross:
  "getSortedFacetKeys (mapGet crossTable 1 []) = [''west'', ''east'']"
  "getSortedFacetKeys (mapGet crossTable 2 []) = [''east'', ''west'']"
  by (simp_all add: getSortedFacetKeys_def crossTable_def mapKeys_def facetLess_def
      mapGet_def computeMean_def)

lemma cross_selected:
  "Update exampleFloat [2, 1] [2, 1] ''left'' (crossState\<lparr>activeFacet := []\<rparr>) = Some crossState"
  by (simp add: Update_arrows navigateGrid_def dataSource_def crossState_def initialModel_def
      ranked_cross indexOf_def Let_def)

lemma crossState_orders:
  "rangeOrder (facetsData crossState) [1, 2]" "rangeOrder (facetsData crossState) [2, 1]"
  by (auto simp: rangeOrder_def mapKeys_def crossState_def crossTable_def initialModel_def)

lemma red_selected:
  "Update exampleFloat [1, 2] [1, 2] ''left'' readmeState = Some redSelected"
  by (simp add: Update_arrows navigateGrid_def dataSource_def readmeState_def redSelected_def
      initialModel_def ranked_readme indexOf_def Let_def)

lemma red_pinned:
  "Update exampleFloat [1, 2] [1, 2] ''enter'' redSelected = Some redPinned"
  using TrimSpace_readme
  by (simp add: Update_enter keyEnter_def togglePin_def regenerateFilteredData_def
      readmeLines_def processLineWithFilter_def redPinned_def redSelected_def readmeState_def
      readmeTable_def initialModel_def mapKeys_def mapHas_def tab_def exampleFloat_def
      addSample_def mapGet_def Let_def)

lemma togglePin_frame:
  "\<exists>p c f. togglePin ord m = m\<lparr>pinnedFacets := p, pinnedFacetsColumn := c, isFiltered := f\<rparr>"
proof -
  let ?a = "activeFacet m"
  show ?thesis
  proof (cases "mapGet (pinnedFacets m) ?a False")
    case True
    then have "togglePin ord m =
        m\<lparr>pinnedFacets := AList.delete ?a (pinnedFacets m),
          pinnedFacetsColumn := AList.delete ?a (pinnedFacetsColumn m),
          isFiltered := length (AList.delete ?a (pinnedFacets m)) > 0\<rparr>"
      by (simp add: togglePin_def Let_def)
    then show ?thesis by blast
  next
    case False
    show ?thesis
    proof (cases "facet m > 0")
      case True
      with False have "togglePin ord m =
          m\<lparr>pinnedFacets := AList.update ?a True (pinnedFacets m),
            pinnedFacetsColumn := AList.update ?a (facet m) (pinnedFacetsColumn m),
            isFiltered := True\<rparr>"
        by (simp add: togglePin_def Let_def)
      then show ?thesis by blast
    next
      case single: False
      show ?thesis
      proof (cases "findColumn ord (facetsData m) ?a")
        case None
        with False single have "togglePin ord m =
            m\<lparr>pinnedFacets := AList.update ?a True (pinnedFacets m),
              pinnedFacetsColumn := pinnedFacetsColumn m,
              isFiltered := True\<rparr>"
          by (simp add: togglePin_def Let_def)
        then show ?thesis by blast
      next
        case (Some col)
        with False single have "togglePin ord m =
            m\<lparr>pinnedFacets := AList.update ?a True (pinnedFacets m),
              pinnedFacetsColumn := AList.update ?a col (pinnedFacetsColumn m),
              isFiltered := True\<rparr>"
          by (simp add: togglePin_def Let_def)
        then show ?thesis by blast
      qed
    qed
  qed
qed


lemma keyEnter_selection:
  assumes "keyEnter pf ord m = Some m'"
  shows "activeFacet m' = activeFacet m" and "facetsData m' = facetsData m"
    and "facet m' = facet m"
proof -
  obtain p c f where t: "togglePin ord m
      = m\<lparr>pinnedFacets := p, pinnedFacetsColumn := c, isFiltered := f\<rparr>"
    using togglePin_frame by blast
  have "activeFacet m' = activeFacet m \<and> facetsData m' = facetsData m \<and> facet m' = facet m"
  proof (cases "activeFacet m \<noteq> [] \<and> isFiltered (togglePin ord m)")
    case True
    with assms have "regenerateFilteredData pf (togglePin ord m) = Some m'"
      by (simp add: keyEnter_def Let_def)
    from regenerate_frame [OF this] obtain fd where
      "m' = (togglePin ord m)\<lparr>filteredData := fd\<rparr>" by blast
    with t show ?thesis by simp
  next
    case False
    with assms have "m' = m \<or> m' = togglePin ord m"
      by (auto simp: keyEnter_def Let_def split: if_splits)
    with t show ?thesis by auto
  qed
  then show "activeFacet m' = activeFacet m" and "facetsData m' = facetsData m"
    and "facet m' = facet m" by simp_all
qed

section \<open>Reachable states\<close>

lemma columnsSound_pins: "columnsSound m \<Longrightarrow> pinsWellFormed m"
proof -
  assume s: "columnsSound m"
  have "0 \<le> mapGet (pinnedFacetsColumn m) v 0" for v
  proof (cases "map_of (pinnedFacetsColumn m) v")
    case None
    then show ?thesis by (simp add: mapGet_def)
  next
    case (Some c)
    then have "(v, c) \<in> set (pinnedFacetsColumn m)" by (rule map_of_SomeD)
    with s Some show ?thesis by (auto simp: columnsSound_def mapGet_def)
  qed
  then show ?thesis by (simp add: pinsWellFormed_def)
qed

lemma mapKeys_addSample:
  "set (mapKeys (addSample t i f v)) = insert i (set (mapKeys t))"
  using dom_update [of i _ t] by (simp add: addSample_def mapKeys_def Let_def)

lemma mapKeys_addFacets:
  "1 \<le> i \<Longrightarrow> \<forall>c \<in> set (mapKeys t). 1 \<le> c \<Longrightarrow>
     \<forall>c \<in> set (mapKeys (addFacets t i fs v)). 1 \<le> c"
proof (induction fs arbitrary: t i)
  case Nil
  then show ?case by simp
next
  case (Cons f fs)
  have "\<forall>c \<in> set (mapKeys (addSample t i f v)). 1 \<le> c"
    using Cons.prems by (simp add: mapKeys_addSample)
  with Cons.IH [of "i + 1" "addSample t i f v"] Cons.prems(1) show ?case by simp
qed

lemma unfiltered_pass_sound:
  assumes "columnsSound m" and "processLineWithFilter pf m line False = Some m'"
  shows "columnsSound m'"
proof (cases "TrimSpace line = []")
  case True
  with assms show ?thesis by (simp add: unfiltered_pass_result)
next
  case False
  show ?thesis
  proof (cases "pf (SplitTab (TrimSpace line) ! 0)")
    case None
    with False assms(2) have "pinnedFacetsColumn m' = pinnedFacetsColumn m"
      and "facetsData m' = facetsData m"
      by (auto simp: unfiltered_pass_result)
    with assms(1) show ?thesis by (simp add: columnsSound_def)
  next
    case (Some x)
    with False assms(2) have "pinnedFacetsColumn m' = pinnedFacetsColumn m"
      and "facetsData m' = addFacets (facetsData m) 1 (tl (SplitTab (TrimSpace line))) x"
      by (auto simp: unfiltered_pass_result)
    with assms(1) mapKeys_addFacets [of 1 "facetsData m" "tl (SplitTab (TrimSpace line))" x]
    show ?thesis by (simp add: columnsSound_def)
  qed
qed

lemma filtered_pass_sound:
  assumes "columnsSound m" and "processLineWithFilter pf m line True = Some m'"
  shows "columnsSound m'"
proof -
  from filtered_pass_frame [OF assms(2)] obtain t where "m' = m\<lparr>filteredData := t\<rparr>" by blast
  with assms(1) show ?thesis by (simp add: columnsSound_def)
qed

lemma processLine_sound:
  assumes "columnsSound m" and "processLine pf m line = Some m'"
  shows "columnsSound m'"
proof -
  let ?m1 = "m\<lparr>storedLines := storedLines m @ [line]\<rparr>"
  have 1: "columnsSound ?m1" using assms(1) by (simp add: columnsSound_def)
  from assms(2) obtain m2 where 2: "processLineWithFilter pf ?m1 line False = Some m2"
    and 3: "(if isFiltered m2 then processLineWithFilter pf m2 line True else Some m2) = Some m'"
    by (auto simp: processLine_def Let_def split: option.splits)
  from unfiltered_pass_sound [OF 1 2] have s2: "columnsSound m2" .
  show ?thesis
  proof (cases "isFiltered m2")
    case True
    with 3 filtered_pass_sound [OF s2] show ?thesis by simp
  next
    case False
    with 3 s2 show ?thesis by simp
  qed
qed

lemma drainLines_sound:
  "columnsSound m \<Longrightarrow> drainLines pf m lines = Some m' \<Longrightarrow> columnsSound m'"
proof (induction lines arbitrary: m)
  case Nil
  then show ?case by simp
next
  case (Cons l ls)
  from Cons.prems(2) obtain m1 where 1: "processLine pf m l = Some m1"
    and 2: "drainLines pf m1 ls = Some m'"
    by (auto split: option.splits)
  from Cons.IH [OF processLine_sound [OF Cons.prems(1) 1] 2] show ?case .
qed

lemma findColumn_mem: "findColumn ord fd a = Some c \<Longrightarrow> c \<in> set ord"
  by (induction ord) (auto split: if_splits)

lemma set_update_subset: "set (AList.update k v al) \<subseteq> insert (k, v) (set al)"
  by (induction al) auto

lemma set_delete_subset: "set (AList.delete k al) \<subseteq> set al"
  by (auto simp: AList.delete_eq)

lemma togglePin_sound:
  assumes "columnsSound m" and "facet m > 0 \<or> set ord \<subseteq> set (mapKeys (facetsData m))"
  shows "columnsSound (togglePin ord m)"
proof -
  let ?a = "activeFacet m"
  have cols: "\<forall>(v, c) \<in> set (pinnedFacetsColumn m). 0 \<le> c"
    and keys: "\<forall>c \<in> set (mapKeys (facetsData m)). 1 \<le> c"
    using assms(1) by (simp_all add: columnsSound_def)
  have up: "\<forall>(v, c) \<in> set (AList.update ?a col (pinnedFacetsColumn m)). 0 \<le> c"
    if "0 \<le> col" for col
    using cols that set_update_subset [of ?a col "pinnedFacetsColumn m"] by auto
  have del: "\<forall>(v, c) \<in> set (AList.delete ?a (pinnedFacetsColumn m)). 0 \<le> c"
    using cols set_delete_subset [of ?a "pinnedFacetsColumn m"] by auto
  have fd: "facetsData (togglePin ord m) = facetsData m"
    using togglePin_frame [of ord m] by auto
  have "\<forall>(v, c) \<in> set (pinnedFacetsColumn (togglePin ord m)). 0 \<le> c"
  proof (cases "mapGet (pinnedFacets m) ?a False")
    case True
    then have "pinnedFacetsColumn (togglePin ord m) = AList.delete ?a (pinnedFacetsColumn m)"
      by (simp add: togglePin_def Let_def)
    with del show ?thesis by simp
  next
    case False
    show ?thesis
    proof (cases "facet m > 0")
      case True
      with False have "pinnedFacetsColumn (togglePin ord m)
          = AList.update ?a (facet m) (pinnedFacetsColumn m)"
        by (simp add: togglePin_def Let_def)
      with up [of "facet m"] True show ?thesis by simp
    next
      case all: False
      show ?thesis
      proof (cases "findColumn ord (facetsData m) ?a")
        case None
        with False all have "pinnedFacetsColumn (togglePin ord m) = pinnedFacetsColumn m"
          by (simp add: togglePin_def Let_def)
        with cols show ?thesis by simp
      next
        case (Some col)
        from findColumn_mem [OF Some] all assms(2) keys have "1 \<le> col" by auto
        moreover from False all Some have "pinnedFacetsColumn (togglePin ord m)
            = AList.update ?a col (pinnedFacetsColumn m)"
          by (simp add: togglePin_def Let_def)
        ultimately show ?thesis using up [of col] by simp
      qed
    qed
  qed
  with keys fd show ?thesis by (simp add: columnsSound_def)
qed

lemma keyEnter_sound:
  assumes "columnsSound m" and "rangeOrder (facetsData m) ord"
    and "keyEnter pf ord m = Some m'"
  shows "columnsSound m'"
proof -
  have "set ord \<subseteq> set (mapKeys (facetsData m))"
    using assms(2) by (simp add: rangeOrder_def)
  with assms(1) have t: "columnsSound (togglePin ord m)" by (simp add: togglePin_sound)
  show ?thesis
  proof (cases "activeFacet m \<noteq> [] \<and> isFiltered (togglePin ord m)")
    case True
    with assms(3) have "regenerateFilteredData pf (togglePin ord m) = Some m'"
      by (simp add: keyEnter_def Let_def)
    from regenerate_frame [OF this] obtain fd where
      "m' = (togglePin ord m)\<lparr>filteredData := fd\<rparr>" by blast
    with t show ?thesis by (simp add: columnsSound_def)
  next
    case False
    with assms(3) have "m' = m \<or> m' = togglePin ord m"
      by (auto simp: keyEnter_def Let_def split: if_splits)
    with t assms(1) show ?thesis by auto
  qed
qed

lemma resetActiveFacet_frame:
  "\<exists>a p. resetActiveFacet ord m = m\<lparr>activeFacet := a, activeFacetPos := p\<rparr>"
proof (cases "facet m = 0")
  case True
  show ?thesis
  proof (cases "firstKey ord (dataSource m)")
    case None
    with True have "resetActiveFacet ord m = m\<lparr>activeFacet := [], activeFacetPos := (0, 0)\<rparr>"
      by (simp add: resetActiveFacet_def Let_def)
    then show ?thesis by blast
  next
    case (Some k)
    with True have "resetActiveFacet ord m = m\<lparr>activeFacet := k, activeFacetPos := (0, 0)\<rparr>"
      by (simp add: resetActiveFacet_def Let_def)
    then show ?thesis by blast
  qed
next
  case False
  have keep: "m\<lparr>activeFacetPos := (0, 0)\<rparr>
      = m\<lparr>activeFacet := activeFacet m, activeFacetPos := (0, 0)\<rparr>" by simp
  show ?thesis
  proof (cases "map_of (dataSource m) (facet m)")
    case None
    with False keep have "resetActiveFacet ord m
        = m\<lparr>activeFacet := activeFacet m, activeFacetPos := (0, 0)\<rparr>"
      by (simp add: resetActiveFacet_def Let_def)
    then show ?thesis by blast
  next
    case (Some fd)
    show ?thesis
    proof (cases "getSortedFacetKeys fd")
      case Nil
      with False Some keep have "resetActiveFacet ord m
          = m\<lparr>activeFacet := activeFacet m, activeFacetPos := (0, 0)\<rparr>"
        by (simp add: resetActiveFacet_def Let_def)
      then show ?thesis by blast
    next
      case (Cons k ks)
      with False Some have "resetActiveFacet ord m
          = m\<lparr>activeFacet := k, activeFacetPos := (0, 0)\<rparr>"
        by (simp add: resetActiveFacet_def Let_def)
      then show ?thesis by blast
    qed
  qed
qed

lemma reset_sound: "columnsSound (resetActiveFacet ord m) = columnsSound m"
proof -
  obtain a p where "resetActiveFacet ord m = m\<lparr>activeFacet := a, activeFacetPos := p\<rparr>"
    using resetActiveFacet_frame by blast
  then show ?thesis by (simp add: columnsSound_def)
qed

lemma navigate_sound: "columnsSound (navigateGrid o1 o2 dx dy m) = columnsSound m"
proof -
  obtain a p sc where "navigateGrid o1 o2 dx dy m
      = m\<lparr>activeFacet := a, activeFacetPos := p, scrollOffset := sc\<rparr>"
    using navigate_frame by blast
  then show ?thesis by (simp add: columnsSound_def)
qed

lemma columnsSound_view [simp]:
  "columnsSound (m\<lparr>scrollOffset := sc\<rparr>) = columnsSound m"
  "columnsSound (m\<lparr>facet := f\<rparr>) = columnsSound m"
  "columnsSound (m\<lparr>winWidth := w, winHeight := h\<rparr>) = columnsSound m"
  by (simp_all add: columnsSound_def)

lemma Update_sound:
  assumes "columnsSound m" and "ordersFit k m o1 o2" and "Update pf o1 o2 k m = Some m'"
  shows "columnsSound m'"
proof (cases "k = ''enter''")
  case True
  with assms(2) have "rangeOrder (facetsData m) o1" by (simp add: ordersFit_def)
  moreover from True assms(3) have "keyEnter pf o1 m = Some m'" by (simp add: Update_enter)
  ultimately show ?thesis using assms(1) keyEnter_sound by blast
next
  case False
  with assms(1,3) show ?thesis
    by (auto simp: Update_def Let_def reset_sound navigate_sound split: if_splits)
qed

lemma initial_sound: "columnsSound (initialModel f)"
  by (simp add: columnsSound_def initialModel_def mapKeys_def)

lemma reachable_sound: "reachable pf m \<Longrightarrow> columnsSound m"
proof (induction rule: reachable.induct)
  case (start facetFlag)
  show ?case by (rule initial_sound)
next
  case (tick m lines m')
  then show ?case using drainLines_sound by blast
next
  case (key m k order1 order2 m')
  then show ?case using Update_sound by blast
next
  case (resize m w h)
  then show ?case by simp
qed

lemma reachable_wellformed: "reachable pf m \<Longrightarrow> pinsWellFormed m"
  by (simp add: reachable_sound columnsSound_pins)

lemma processLine_returns:
  assumes "pinsWellFormed m"
  shows "\<exists>m'. processLine pf m line = Some m' \<and> pinsWellFormed m'"
proof (cases "TrimSpace line = []")
  case True
  with assms show ?thesis by (simp add: processLine_empty pinsWellFormed_def)
next
  case False
  show ?thesis
  proof (cases "pf (SplitTab (TrimSpace line) ! 0)")
    case None
    from processLine_category [of m line pf, OF assms False None] assms show ?thesis
      by (simp add: pinsWellFormed_def)
  next
    case (Some x)
    from processLine_observation [of m line pf x, OF assms False Some] assms show ?thesis
      by (auto simp: pinsWellFormed_def)
  qed
qed

lemma drainLines_returns:
  "pinsWellFormed m \<Longrightarrow> \<exists>m'. drainLines pf m lines = Some m'"
proof (induction lines arbitrary: m)
  case Nil
  then show ?case by simp
next
  case (Cons l ls)
  from processLine_returns [OF Cons.prems, of pf l] obtain m1 where
    1: "processLine pf m l = Some m1" and 2: "pinsWellFormed m1" by blast
  from Cons.IH [OF 2] 1 show ?case by simp
qed

lemma Update_returns:
  assumes "columnsSound m" and "ordersFit k m o1 o2"
  shows "\<exists>m'. Update pf o1 o2 k m = Some m'"
proof (cases "k = ''enter'' \<and> activeFacet m \<noteq> [] \<and> isFiltered (togglePin o1 m)")
  case True
  with assms(2) have "set o1 \<subseteq> set (mapKeys (facetsData m))"
    by (simp add: ordersFit_def rangeOrder_def)
  with assms(1) have "columnsSound (togglePin o1 m)" by (simp add: togglePin_sound)
  then have "pinsWellFormed (togglePin o1 m)" by (rule columnsSound_pins)
  then have "\<exists>m'. regenerateFilteredData pf (togglePin o1 m) = Some m'"
    using regenerate_returns [of "togglePin o1 m" pf] by (simp add: pinsWellFormed_def)
  with True show ?thesis by (simp add: Update_enter keyEnter_def Let_def)
next
  case False
  then show ?thesis
    by (auto simp: Update_def keyEnter_def Let_def)
qed

text \<open>
  In every state the program can reach no pin is bound to a negative column, so neither
  a tick nor a key press ends in a panic.
\<close>

theorem reachable_never_panics:
  assumes "reachable pf m"
  shows "pinsWellFormed m"
    and "\<exists>m'. drainLines pf m lines = Some m'"
    and "ordersFit k m o1 o2 \<Longrightarrow> \<exists>m'. Update pf o1 o2 k m = Some m'"
  using assms reachable_sound [OF assms] columnsSound_pins drainLines_returns Update_returns
  by blast+

section \<open>The example states are reachable\<close>

lemma Update_d: "Update pf o1 o2 ''d'' m =
    (let mf = maxFacet (dataSource m) in
     if facet m = 0 \<and> mf > 0
     then Some (resetActiveFacet o1 (m\<lparr>facet := 1, scrollOffset := 0\<rparr>))
     else if facet m < mf
     then Some (resetActiveFacet o1 (m\<lparr>facet := facet m + 1, scrollOffset := 0\<rparr>))
     else Some m)"
  by (simp add: Update_def)

lemma orders_readme:
  "rangeOrder readmeTable [1, 2]" "rangeOrder readmeTable [2, 1]"
  by (auto simp: rangeOrder_def mapKeys_def readmeTable_def)

lemma orders_cross:
  "rangeOrder crossTable [1, 2]" "rangeOrder crossTable [2, 1]"
  by (auto simp: rangeOrder_def mapKeys_def crossTable_def)

lemma readme_reachable: "reachable exampleFloat readmeState"
  using reachable.start [of exampleFloat 0] readme_reached by (rule reachable.tick)

lemma redSelected_reachable: "reachable exampleFloat redSelected"
proof -
  have "ordersFit ''left'' readmeState [1, 2] [1, 2]"
    by (simp add: ordersFit_def dataSource_readme orders_readme)
  with readme_reachable show ?thesis using red_selected by (rule reachable.key)
qed

lemma redPinned_reachable: "reachable exampleFloat redPinned"
proof -
  have "ordersFit ''enter'' redSelected [1, 2] [1, 2]"
    by (simp add: ordersFit_def redSelected_def readmeState_fields orders_readme)
  with redSelected_reachable show ?thesis using red_pinned by (rule reachable.key)
qed

lemma blueSelectedAll_reachable: "reachable exampleFloat blueSelectedAll"
proof -
  have o: "ordersFit ''down'' redSelected [1, 2] [1, 2]"
    by (simp add: ordersFit_def dataSource_def redSelected_def readmeState_fields orders_readme)
  have "Update exampleFloat [1, 2] [1, 2] ''down'' redSelected = Some blueSelectedAll"
    by (simp add: Update_arrows navigateGrid_def dataSource_def readmeState_def redSelected_def
        blueSelectedAll_def initialModel_def ranked_readme indexOf_def Let_def
        updatePositionFromActiveFacet_def ensureActiveFacetVisible_def mapHas_def)
  with redSelected_reachable o show ?thesis by (rule reachable.key)
qed

lemma blueSelected_reachable: "reachable exampleFloat blueSelected"
proof -
  let ?red1 = "readmeState\<lparr>facet := 1, activeFacet := ''red''\<rparr>"
  have o1: "ordersFit ''d'' readmeState [1, 2] [1, 2]"
    by (simp add: ordersFit_def dataSource_readme orders_readme)
  have "Update exampleFloat [1, 2] [1, 2] ''d'' readmeState = Some ?red1"
    by (simp add: Update_d maxFacet_def mapKeys_def resetActiveFacet_def dataSource_def
        readmeState_def initialModel_def readmeTable_def getSortedFacetKeys_def
        facetLess_def mapGet_def computeMean_def Let_def)
  with readme_reachable o1 have r1: "reachable exampleFloat ?red1" by (rule reachable.key)
  have o2: "ordersFit ''down'' ?red1 [1, 2] [1, 2]"
    by (simp add: ordersFit_def dataSource_def readmeState_fields orders_readme)
  have "Update exampleFloat [1, 2] [1, 2] ''down'' ?red1 = Some blueSelected"
    by (simp add: Update_arrows navigateGrid_def dataSource_def readmeState_def
        blueSelected_def initialModel_def readmeTable_def getSortedFacetKeys_def
        facetLess_def mapGet_def mapKeys_def computeMean_def indexOf_def Let_def gridWidth_def
        goDiv_def goMod_def ensureActiveFacetVisible_def mapHas_def)
  with r1 o2 show ?thesis by (rule reachable.key)
qed

lemma crossState_reachable: "reachable exampleFloat crossState"
proof -
  have r: "reachable exampleFloat (crossState\<lparr>activeFacet := []\<rparr>)"
    using reachable.start [of exampleFloat 0] cross_reached by (rule reachable.tick)
  have "ordersFit ''left'' (crossState\<lparr>activeFacet := []\<rparr>) [2, 1] [2, 1]"
    by (simp add: ordersFit_def dataSource_def crossState_def initialModel_def orders_cross)
  with r show ?thesis using cross_selected by (rule reachable.key)
qed

section \<open>The pin filter decides\<close>

text \<open>
  C1. The pins of a state are the entries of \<open>pinnedFacets\<close> (all of them carry
  \<open>True\<close>), each with the column \<open>pinnedFacetsColumn\<close> gives it. A record, that is the
  list of fields of a non-empty line, passes the filter of \<open>processLineWithFilter\<close>
  exactly when every pin whose column is an index of the record finds its value in that
  field; a pin whose column is not an index of the record does not reject it. A record
  that passes is added to the filtered table (when its first field is a number), one
  that does not pass leaves the state as it is. (\<open>pinsWellFormed\<close>: no pin is
  bound to a negative column, where the program would stop with a panic.)
\<close>

theorem pin_filter_passes:
  assumes "pinsWellFormed m"
    and "TrimSpace line \<noteq> []"
  shows "processLineWithFilter pf m line True =
     Some (if (\<forall>(v, a) \<in> set (pinnedFacets m). a \<longrightarrow>
                 mapGet (pinnedFacetsColumn m) v 0 < int (length (SplitTab (TrimSpace line))) \<longrightarrow>
                 SplitTab (TrimSpace line) ! nat (mapGet (pinnedFacetsColumn m) v 0) = v)
           then (case pf (SplitTab (TrimSpace line) ! 0) of
                   None \<Rightarrow> m
                 | Some x \<Rightarrow>
                     m\<lparr>filteredData :=
                         addFacets (filteredData m) 1 (tl (SplitTab (TrimSpace line))) x\<rparr>)
           else m)"
  using assms unfolding pinsWellFormed_def by (rule filtered_pass_result)

theorem pin_filter_passes_witness:
  "processLineWithFilter exampleFloat redPinned lineRedSeattle True =
     Some (redPinned\<lparr>filteredData :=
             [(1, [(''red'', [10.5, 15.2, 10.5])]),
              (2, [(''seattle'', [10.5, 10.5]), (''san jose'', [15.2])])]\<rparr>)"
proof -
  have cols: "pinsWellFormed redPinned"
    using redPinned_reachable by (rule reachable_wellformed)
  have line: "TrimSpace lineRedSeattle \<noteq> []"
    by (simp add: TrimSpace_lineRedSeattle) (simp add: lineRedSeattle_def)
  from pin_filter_passes [OF cols line, of exampleFloat] show ?thesis
    by (simp add: TrimSpace_lineRedSeattle SplitTab_lineRedSeattle redPinned_def
        redSelected_def readmeState_def initialModel_def mapGet_def exampleFloat_def
        addSample_def)
qed

section \<open>Ranking\<close>




















section \<open>Unpinning the last pin\<close>




section \<open>Histogram bins\<close>








section \<open>Navigation stays in bounds\<close>

text \<open>
  The claim C5 as it is written fails in its last part, "horizontal moves never change
  the selection" of the aggregate view. After the sample input has been read nothing is
  selected yet; the key \<open>left\<close> then selects \<open>red\<close>: \<open>navigateGrid\<close> first gives an
  empty selection the first ranked key it finds, and only then sees that the move is
  horizontal.
\<close>

theorem horizontal_move_selects:
  "reachable exampleFloat readmeState
   \<and> facet readmeState = 0 \<and> activeFacet readmeState = []
   \<and> Update exampleFloat [1, 2] [1, 2] ''left'' readmeState = Some redSelected
   \<and> activeFacet redSelected = ''red''"
proof -
  have "activeFacet redSelected = ''red''"
    by (simp add: redSelected_def)
  with readme_reachable readmeState_fields(1,2) red_selected show ?thesis by blast
qed

text \<open>
  C5, amended. Single-column view, \<open>N\<close> ranked keys in a grid of width \<open>C\<close>: after any
  sequence of moves the selected key is one of the keys, at an index from \<open>0\<close> to
  \<open>N - 1\<close> (for the empty sequence, if it was one before); a move from index \<open>i\<close> goes
  to row \<open>i div C + dy\<close>, column \<open>i mod C + dx\<close>, and is rejected, the selection
  unchanged, when the row or the column is negative or the linear index is \<open>N\<close> or more.
  Aggregate view: after any sequence of moves the selected key is in the list of all
  keys, at an index from \<open>0\<close> to \<open>totalKeys - 1\<close>; from a selection that is not empty
  and is in the list, a vertical move goes one index down or up, clamped at the ends
  without wrapping around, and a horizontal move does not change the selection. When the
  active value is empty or not in the list, any move, a horizontal one too, selects a
  key of the list.
\<close>

theorem navigation_stays_in_bounds:
  "(facet m > 0 \<and> map_of (dataSource m) (facet m) = Some fd \<and> getSortedFacetKeys fd \<noteq> []
      \<and> (moves \<noteq> [] \<or> activeFacet m \<in> set (getSortedFacetKeys fd))
    \<longrightarrow> 0 \<le> indexOf (getSortedFacetKeys fd) (activeFacet (navigateMoves moves m))
      \<and> indexOf (getSortedFacetKeys fd) (activeFacet (navigateMoves moves m))
          < int (length (getSortedFacetKeys fd)))
   \<and> (facet m > 0 \<and> map_of (dataSource m) (facet m) = Some fd
      \<and> activeFacet m \<in> set (getSortedFacetKeys fd)
    \<longrightarrow> activeFacet (navigateGrid o1 o2 dx dy m) =
        (let keys = getSortedFacetKeys fd;
             i = indexOf keys (activeFacet m);
             r = i div gridWidth m + dy;
             c = i mod gridWidth m + dx;
             t = r * gridWidth m + c
         in if r < 0 \<or> c < 0 \<or> t \<ge> int (length keys) then activeFacet m
            else keys ! nat t))
   \<and> (facet m = 0
      \<and> (\<forall>(p1, p2, px, py) \<in> set moves.
             rangeOrder (dataSource m) p1 \<and> rangeOrder (dataSource m) p2)
      \<and> rangeOrder (dataSource m) ord \<and> collectKeys ord (dataSource m) \<noteq> []
      \<and> (moves \<noteq> [] \<or> activeFacet m \<in> set (collectKeys ord (dataSource m)))
    \<longrightarrow> 0 \<le> indexOf (collectKeys ord (dataSource m)) (activeFacet (navigateMoves moves m))
      \<and> indexOf (collectKeys ord (dataSource m)) (activeFacet (navigateMoves moves m))
          < int (length (collectKeys ord (dataSource m))))
   \<and> (facet m = 0 \<and> activeFacet m \<noteq> []
      \<and> activeFacet m \<in> set (collectKeys o2 (dataSource m))
    \<longrightarrow> activeFacet (navigateGrid o1 o2 dx dy m) =
        (let allKeys = collectKeys o2 (dataSource m);
             i = indexOf allKeys (activeFacet m)
         in if dy > 0 then allKeys ! nat (min (i + 1) (int (length allKeys) - 1))
            else if dy < 0 then allKeys ! nat (max (i - 1) 0)
            else activeFacet m))"
proof -
  have a: "0 \<le> indexOf (getSortedFacetKeys fd) (activeFacet (navigateMoves moves m))
      \<and> indexOf (getSortedFacetKeys fd) (activeFacet (navigateMoves moves m))
          < int (length (getSortedFacetKeys fd))"
    if "facet m > 0" "map_of (dataSource m) (facet m) = Some fd" "getSortedFacetKeys fd \<noteq> []"
      "moves \<noteq> [] \<or> activeFacet m \<in> set (getSortedFacetKeys fd)"
    using indexOf_found [OF navigateMoves_single [OF that]] by simp
  have b: "activeFacet (navigateGrid o1 o2 dx dy m) =
        (let keys = getSortedFacetKeys fd;
             i = indexOf keys (activeFacet m);
             r = i div gridWidth m + dy;
             c = i mod gridWidth m + dx;
             t = r * gridWidth m + c
         in if r < 0 \<or> c < 0 \<or> t \<ge> int (length keys) then activeFacet m
            else keys ! nat t)"
    if "facet m > 0" "map_of (dataSource m) (facet m) = Some fd"
      "activeFacet m \<in> set (getSortedFacetKeys fd)"
  proof -
    from that(3) have ne: "getSortedFacetKeys fd \<noteq> []" by auto
    from that(3) have "indexOf (getSortedFacetKeys fd) (activeFacet m) \<noteq> -1"
      by (simp add: indexOf_mem)
    with navigate_single [OF that(1,2) refl ne, of o1 o2 dx dy] show ?thesis
      by (simp add: Let_def)
  qed
  have c: "0 \<le> indexOf (collectKeys ord (dataSource m)) (activeFacet (navigateMoves moves m))
      \<and> indexOf (collectKeys ord (dataSource m)) (activeFacet (navigateMoves moves m))
          < int (length (collectKeys ord (dataSource m)))"
    if "facet m = 0"
      "\<forall>(p1, p2, px, py) \<in> set moves.
             rangeOrder (dataSource m) p1 \<and> rangeOrder (dataSource m) p2"
      "rangeOrder (dataSource m) ord" "collectKeys ord (dataSource m) \<noteq> []"
      "moves \<noteq> [] \<or> activeFacet m \<in> set (collectKeys ord (dataSource m))"
    using indexOf_found [OF navigateMoves_all [OF that]] by simp
  have d: "activeFacet (navigateGrid o1 o2 dx dy m) =
        (let allKeys = collectKeys o2 (dataSource m);
             i = indexOf allKeys (activeFacet m)
         in if dy > 0 then allKeys ! nat (min (i + 1) (int (length allKeys) - 1))
            else if dy < 0 then allKeys ! nat (max (i - 1) 0)
            else activeFacet m)"
    if "facet m = 0" "activeFacet m \<noteq> []"
      "activeFacet m \<in> set (collectKeys o2 (dataSource m))"
  proof -
    from that(3) have ne: "collectKeys o2 (dataSource m) \<noteq> []" by auto
    from that(3) have "indexOf (collectKeys o2 (dataSource m)) (activeFacet m) \<noteq> -1"
      by (simp add: indexOf_mem)
    with navigate_all [OF that(1), of o1 o2 dx dy] that(2) ne show ?thesis
      by (simp add: Let_def)
  qed
  from a b c d show ?thesis by blast
qed

lemma gridWidth_redColumn: "gridWidth redColumn = 1"
  by (simp add: gridWidth_def redColumn_def readmeState_def initialModel_def goDiv_def)

theorem navigation_stays_in_bounds_witness:
  "activeFacet (navigateGrid [] [] 0 1 redColumn) = ''blue''
   \<and> activeFacet (navigateGrid [1, 2] [1, 2] (- 1) 0 redSelected) = ''red''
   \<and> activeFacet (navigateGrid [1, 2] [1, 2] 0 1 redSelected) = ''blue''"
proof -
  let ?fd = "mapGet readmeTable 1 []"
  have h1: "facet redColumn > 0
      \<and> map_of (dataSource redColumn) (facet redColumn) = Some ?fd
      \<and> activeFacet redColumn \<in> set (getSortedFacetKeys ?fd)"
    by (simp add: ranked_readme)
       (simp add: dataSource_def redColumn_def readmeState_def initialModel_def
          readmeTable_def mapGet_def)
  have a1: "activeFacet redColumn = ''red''"
    by (simp add: redColumn_def)
  have ds0: "dataSource redSelected = readmeTable"
    by (simp add: dataSource_def redSelected_def readmeState_fields)
  have a0: "activeFacet redSelected = ''red''" and f0: "facet redSelected = 0"
    by (simp_all add: redSelected_def readmeState_fields)
  have h0: "facet redSelected = 0 \<and> activeFacet redSelected \<noteq> []
      \<and> activeFacet redSelected \<in> set (collectKeys [1, 2] (dataSource redSelected))"
    by (simp add: ds0 a0 f0 ranked_readme)
  from navigation_stays_in_bounds [of redColumn ?fd "[]" "[]" "[]" 0 1 "[]"] h1
  have 1: "activeFacet (navigateGrid [] [] 0 1 redColumn) = ''blue''"
    by (simp add: a1 ranked_readme gridWidth_redColumn indexOf_def Let_def)
  from navigation_stays_in_bounds [of redSelected ?fd "[]" "[1, 2]" "[1, 2]" "- 1" 0 "[]"] h0
  have 2: "activeFacet (navigateGrid [1, 2] [1, 2] (- 1) 0 redSelected) = ''red''"
    by (simp add: ds0 a0 ranked_readme Let_def)
  from navigation_stays_in_bounds [of redSelected ?fd "[]" "[1, 2]" "[1, 2]" 0 1 "[]"] h0
  have 3: "activeFacet (navigateGrid [1, 2] [1, 2] 0 1 redSelected) = ''blue''"
    by (simp add: ds0 a0 ranked_readme indexOf_def Let_def)
  from 1 2 3 show ?thesis by blast
qed

section \<open>The address list of the aggregate view\<close>

text \<open>
  C6 says that the list of keys the aggregate view navigates is the concatenation of
  the columns' ranked keys in ascending column order. \<open>navigateGrid\<close> builds it in the
  order in which the \<^verbatim>\<open>range\<close> over the Go map visits the columns. For the sample
  input both \<open>[1, 2]\<close> and \<open>[2, 1]\<close> are possible visiting orders; they give different
  lists, and from the selection \<open>blue\<close> a move down reaches \<open>san jose\<close> under the
  first and stays on \<open>blue\<close> under the second.
\<close>

theorem aggregate_list_follows_visit_order:
  "reachable exampleFloat blueSelectedAll
   \<and> facet blueSelectedAll = 0 \<and> activeFacet blueSelectedAll = ''blue''
   \<and> rangeOrder (dataSource blueSelectedAll) [1, 2]
   \<and> rangeOrder (dataSource blueSelectedAll) [2, 1]
   \<and> collectKeys [1, 2] (dataSource blueSelectedAll)
       = [''red'', ''blue'', ''san jose'', ''seattle'']
   \<and> collectKeys [2, 1] (dataSource blueSelectedAll)
       = [''san jose'', ''seattle'', ''red'', ''blue'']
   \<and> activeFacet (navigateGrid [1, 2] [1, 2] 0 1 blueSelectedAll) = ''san jose''
   \<and> activeFacet (navigateGrid [1, 2] [2, 1] 0 1 blueSelectedAll) = ''blue''"
proof -
  have ds: "dataSource blueSelectedAll = readmeTable"
    by (simp add: dataSource_def blueSelectedAll_def readmeState_fields)
  have f: "facet blueSelectedAll = 0" and a: "activeFacet blueSelectedAll = ''blue''"
    by (simp_all add: blueSelectedAll_def readmeState_fields)
  have 1: "activeFacet (navigateGrid [1, 2] [1, 2] 0 1 blueSelectedAll) = ''san jose''"
    using navigate_all [of blueSelectedAll "[1, 2]" "[1, 2]" 0 1]
    by (simp add: f a ds ranked_readme indexOf_def Let_def)
  have 2: "activeFacet (navigateGrid [1, 2] [2, 1] 0 1 blueSelectedAll) = ''blue''"
    using navigate_all [of blueSelectedAll "[1, 2]" "[2, 1]" 0 1]
    by (simp add: f a ds ranked_readme indexOf_def Let_def)
  from 1 2 show ?thesis
    by (simp add: blueSelectedAll_reachable f a ds orders_readme ranked_readme)
qed

section \<open>The column a pin is bound to\<close>

text \<open>
  C7 says that a value pinned from the all-facets view is bound to the lowest column of
  the full table that contains it. The program binds it to the first column containing
  it that the \<^verbatim>\<open>range\<close> over the Go map \<^verbatim>\<open>m.facetsData\<close> happens to visit. In
  \<open>crossState\<close> the value \<open>east\<close> stands in columns 1 and 2. When the runtime visits
  column 2 first, \<open>enter\<close> binds the pin to column 2 and the filtered table keeps the
  second record only; when it visits column 1 first, the pin is bound to column 1 and
  the filtered table keeps the first record only.
\<close>

theorem pin_binds_first_visited_column:
  "reachable exampleFloat crossState
   \<and> rangeOrder (facetsData crossState) [2, 1]
   \<and> facet crossState = 0 \<and> activeFacet crossState = ''east''
   \<and> mapHas (mapGet (facetsData crossState) 1 []) ''east''
   \<and> Update exampleFloat [2, 1] [2, 1] ''enter'' crossState =
       Some (crossState\<lparr>pinnedFacets := [(''east'', True)],
               pinnedFacetsColumn := [(''east'', 2)], isFiltered := True,
               filteredData := [(1, [(''west'', [15.2])]), (2, [(''east'', [15.2])])]\<rparr>)
   \<and> Update exampleFloat [1, 2] [1, 2] ''enter'' crossState =
       Some (crossState\<lparr>pinnedFacets := [(''east'', True)],
               pinnedFacetsColumn := [(''east'', 1)], isFiltered := True,
               filteredData := [(1, [(''east'', [10.5])]), (2, [(''west'', [10.5])])]\<rparr>)"
proof -
  have t: "map TrimSpace crossLines = crossLines" by (rule TrimSpace_cross)
  have a: "Update exampleFloat [2, 1] [2, 1] ''enter'' crossState =
       Some (crossState\<lparr>pinnedFacets := [(''east'', True)],
               pinnedFacetsColumn := [(''east'', 2)], isFiltered := True,
               filteredData := [(1, [(''west'', [15.2])]), (2, [(''east'', [15.2])])]\<rparr>)"
    using t
    by (simp add: Update_enter keyEnter_def togglePin_def regenerateFilteredData_def
        crossLines_def processLineWithFilter_def crossState_def crossTable_def
        initialModel_def mapKeys_def mapHas_def tab_def exampleFloat_def addSample_def
        mapGet_def Let_def)
  have b: "Update exampleFloat [1, 2] [1, 2] ''enter'' crossState =
       Some (crossState\<lparr>pinnedFacets := [(''east'', True)],
               pinnedFacetsColumn := [(''east'', 1)], isFiltered := True,
               filteredData := [(1, [(''east'', [10.5])]), (2, [(''west'', [10.5])])]\<rparr>)"
    using t
    by (simp add: Update_enter keyEnter_def togglePin_def regenerateFilteredData_def
        crossLines_def processLineWithFilter_def crossState_def crossTable_def
        initialModel_def mapKeys_def mapHas_def tab_def exampleFloat_def addSample_def
        mapGet_def Let_def)
  have c: "facet crossState = 0 \<and> activeFacet crossState = ''east''
      \<and> mapHas (mapGet (facetsData crossState) 1 []) ''east''"
    by (simp add: crossState_def crossTable_def initialModel_def mapHas_def mapGet_def)
  from a b c crossState_orders(2) crossState_reachable show ?thesis by blast
qed

section \<open>Counting records\<close>

text \<open>
  The claim C8 as it is written, for every raw line, fails for a line that is empty
  once trimmed: \<open>processLineWithFilter\<close> returns before it counts, so the record
  counter stays as it was (the line is still stored by \<open>processLine\<close>).
\<close>

theorem empty_line_not_counted:
  "processLine exampleFloat (initialModel 0) [] = Some ((initialModel 0)\<lparr>storedLines := [[]]\<rparr>)
   \<and> \<not> (\<exists>m'. processLineWithFilter exampleFloat (initialModel 0) [] False = Some m'
           \<and> totalLogCount m' = totalLogCount (initialModel 0) + 1)"
proof -
  have t: "TrimSpace [] = []"
    by (simp add: TrimSpace_def stripSeqs.simps spaceSeqs_def)
  then have "processLineWithFilter exampleFloat (initialModel 0) [] False = Some (initialModel 0)"
    by (simp add: unfiltered_pass_result)
  moreover have "processLine exampleFloat (initialModel 0) []
      = Some ((initialModel 0)\<lparr>storedLines := [[]]\<rparr>)"
    using processLine_empty [OF t, of exampleFloat "initialModel 0"]
    by (simp add: initialModel_def)
  ultimately show ?thesis by simp
qed

text \<open>
  C8, amended. For every raw line that is not empty once trimmed, unfiltered processing
  adds exactly one to the record counter, whatever the outcome, and the additional
  filtered pass of \<open>processLine\<close> adds nothing; a line that is empty once trimmed
  leaves the counter as it is. A non-empty line whose first field is not a number adds
  one to the count of that field in \<open>stringValues\<close>, changes no other count there, and
  changes neither the full nor the filtered table.
\<close>

theorem record_counted_once:
  "\<exists>m'. processLineWithFilter pf m line False = Some m'
     \<and> totalLogCount m' = (if TrimSpace line = [] then totalLogCount m else totalLogCount m + 1)
     \<and> (TrimSpace line \<noteq> [] \<and> pf (SplitTab (TrimSpace line) ! 0) = None \<longrightarrow>
          facetsData m' = facetsData m \<and> filteredData m' = filteredData m
          \<and> (\<forall>s. mapGet (stringValues m') s 0 =
                (if s = SplitTab (TrimSpace line) ! 0 then mapGet (stringValues m) s 0 + 1
                 else mapGet (stringValues m) s 0)))
     \<and> (pinsWellFormed m \<longrightarrow>
          (\<exists>m''. processLine pf m line = Some m''
             \<and> storedLines m'' = storedLines m @ [line]
             \<and> totalLogCount m'' =
                 (if TrimSpace line = [] then totalLogCount m else totalLogCount m + 1)
             \<and> (TrimSpace line \<noteq> [] \<and> pf (SplitTab (TrimSpace line) ! 0) = None \<longrightarrow>
                  facetsData m'' = facetsData m \<and> filteredData m'' = filteredData m
                  \<and> (\<forall>s. mapGet (stringValues m'') s 0 =
                        (if s = SplitTab (TrimSpace line) ! 0 then mapGet (stringValues m) s 0 + 1
                         else mapGet (stringValues m) s 0)))))"
proof -
  have a: "\<exists>m''. processLine pf m line = Some m''
             \<and> storedLines m'' = storedLines m @ [line]
             \<and> totalLogCount m'' =
                 (if TrimSpace line = [] then totalLogCount m else totalLogCount m + 1)
             \<and> (TrimSpace line \<noteq> [] \<and> pf (SplitTab (TrimSpace line) ! 0) = None \<longrightarrow>
                  facetsData m'' = facetsData m \<and> filteredData m'' = filteredData m
                  \<and> (\<forall>s. mapGet (stringValues m'') s 0 =
                        (if s = SplitTab (TrimSpace line) ! 0 then mapGet (stringValues m) s 0 + 1
                         else mapGet (stringValues m) s 0)))"
    if wf: "pinsWellFormed m"
  proof (cases "TrimSpace line = []")
    case True
    then show ?thesis by (simp add: processLine_empty)
  next
    case False
    show ?thesis
    proof (cases "pf (SplitTab (TrimSpace line) ! 0)")
      case None
      from processLine_category [of m line pf, OF wf False None] False None show ?thesis
        by (simp add: mapGet_update)
    next
      case (Some x)
      from processLine_observation [of m line pf x, OF wf False Some] obtain t where
        "processLine pf m line =
           Some (m\<lparr>storedLines := storedLines m @ [line],
             totalLogCount := totalLogCount m + 1,
             facetsData := addFacets (facetsData m) 1 (tl (SplitTab (TrimSpace line))) x,
             filteredData := t\<rparr>)" by blast
      with False Some show ?thesis by simp
    qed
  qed
  have b: "\<exists>m'. processLineWithFilter pf m line False = Some m'
     \<and> totalLogCount m' = (if TrimSpace line = [] then totalLogCount m else totalLogCount m + 1)
     \<and> (TrimSpace line \<noteq> [] \<and> pf (SplitTab (TrimSpace line) ! 0) = None \<longrightarrow>
          facetsData m' = facetsData m \<and> filteredData m' = filteredData m
          \<and> (\<forall>s. mapGet (stringValues m') s 0 =
                (if s = SplitTab (TrimSpace line) ! 0 then mapGet (stringValues m) s 0 + 1
                 else mapGet (stringValues m) s 0)))"
    by (simp add: unfiltered_pass_result mapGet_update split: option.splits)
  from a b show ?thesis by blast
qed

theorem record_counted_once_witness:
  "\<exists>m'. processLine exampleFloat (initialModel 0) ''GET'' = Some m'
     \<and> totalLogCount m' = 1 \<and> mapGet (stringValues m') ''GET'' 0 = 1
     \<and> facetsData m' = [] \<and> filteredData m' = []"
proof -
  have wf: "pinsWellFormed (initialModel 0)"
    by (simp add: pinsWellFormed_def initialModel_def)
  have t: "TrimSpace ''GET'' = ''GET''"
    by (simp add: TrimSpace_def stripSeqs.simps spaceSeqs_def)
  have s: "SplitTab ''GET'' = [''GET'']"
    by (simp add: tab_def)
  have n: "exampleFloat ''GET'' = None"
    by (simp add: exampleFloat_def)
  from record_counted_once [of exampleFloat "initialModel 0" "''GET''"] wf
  obtain m'' where p: "processLine exampleFloat (initialModel 0) ''GET'' = Some m''"
    and c: "totalLogCount m'' = (if TrimSpace ''GET'' = [] then totalLogCount (initialModel 0)
                           else totalLogCount (initialModel 0) + 1)"
    and r: "TrimSpace ''GET'' \<noteq> [] \<and> exampleFloat (SplitTab (TrimSpace ''GET'') ! 0) = None \<longrightarrow>
       facetsData m'' = facetsData (initialModel 0)
       \<and> filteredData m'' = filteredData (initialModel 0)
       \<and> (\<forall>s. mapGet (stringValues m'') s 0 =
             (if s = SplitTab (TrimSpace ''GET'') ! 0
              then mapGet (stringValues (initialModel 0)) s 0 + 1
              else mapGet (stringValues (initialModel 0)) s 0))"
    by blast
  have pre: "TrimSpace ''GET'' \<noteq> [] \<and> exampleFloat (SplitTab (TrimSpace ''GET'') ! 0) = None"
    unfolding t s by (simp add: n)
  from r pre have f: "facetsData m'' = facetsData (initialModel 0)"
    and g: "filteredData m'' = filteredData (initialModel 0)"
    and h: "\<forall>s. mapGet (stringValues m'') s 0 =
             (if s = SplitTab (TrimSpace ''GET'') ! 0
              then mapGet (stringValues (initialModel 0)) s 0 + 1
              else mapGet (stringValues (initialModel 0)) s 0)"
    by blast+
  from h [rule_format, of "''GET''"] have "mapGet (stringValues m'') ''GET'' 0 = 1"
    unfolding t s by (simp add: initialModel_def mapGet_def)
  moreover from c have "totalLogCount m'' = 1"
    unfolding t by (simp add: initialModel_def)
  moreover from f g have "facetsData m'' = [] \<and> filteredData m'' = []"
    by (simp add: initialModel_def)
  ultimately show ?thesis using p by blast
qed

section \<open>The selection after a change of view or of pins\<close>

text \<open>
  The claim C9 as it is written fails: the selection is not preserved when it still
  resolves. With column 1 shown and \<open>blue\<close> selected, the key \<open>0\<close> switches to the
  all-facets view, where \<open>blue\<close> is still one of the keys shown, and the selection
  becomes \<open>red\<close>, the first ranked key.
\<close>

theorem view_switch_resets_although_resolving:
  "reachable exampleFloat blueSelected
   \<and> facet blueSelected = 1 \<and> activeFacet blueSelected = ''blue''
   \<and> Update exampleFloat [1, 2] [1, 2] ''0'' blueSelected = Some redSelected
   \<and> facet redSelected = 0 \<and> activeFacet redSelected = ''red''
   \<and> ''blue'' \<in> set (collectKeys [1, 2] (dataSource redSelected))"
proof -
  have "facet blueSelected = 1 \<and> activeFacet blueSelected = ''blue''"
    by (simp add: blueSelected_def)
  moreover have "Update exampleFloat [1, 2] [1, 2] ''0'' blueSelected = Some redSelected"
    by (simp add: Update_zero resetActiveFacet_def dataSource_def blueSelected_def
        readmeState_def redSelected_def initialModel_def ranked_readme Let_def)
  moreover have "facet redSelected = 0 \<and> activeFacet redSelected = ''red''
      \<and> ''blue'' \<in> set (collectKeys [1, 2] (dataSource redSelected))"
    by (simp add: dataSource_def redSelected_def readmeState_fields ranked_readme)
  ultimately show ?thesis using blueSelected_reachable by blast
qed

text \<open>
  C9, amended. A switch to the all-facets view (the key \<open>0\<close>, or the key \<open>a\<close> from
  column 1) always resets the selection: to the first ranked key of a column that has
  keys (the first such column that the loop over the table visits), and to the empty
  value when no column has keys; the previous selection plays no part. A pin toggle never
  changes the selection.
\<close>

theorem view_switch_resets_selection:
  "(\<exists>m'. Update pf o1 o2 ''0'' m = Some m' \<and> facet m' = 0
        \<and> activeFacet m' = (case firstKey o1 (dataSource m) of None \<Rightarrow> [] | Some k \<Rightarrow> k))
   \<and> (facet m = 1 \<longrightarrow>
        (\<exists>m'. Update pf o1 o2 ''a'' m = Some m' \<and> facet m' = 0
           \<and> activeFacet m' = (case firstKey o1 (dataSource m) of None \<Rightarrow> [] | Some k \<Rightarrow> k)))
   \<and> (rangeOrder (dataSource m) o1 \<longrightarrow>
        (case firstKey o1 (dataSource m) of
           None \<Rightarrow>
             \<forall>c \<in> set (mapKeys (dataSource m)).
               getSortedFacetKeys (mapGet (dataSource m) c []) = []
         | Some k \<Rightarrow>
             \<exists>c \<in> set (mapKeys (dataSource m)).
               \<exists>rest. getSortedFacetKeys (mapGet (dataSource m) c []) = k # rest))
   \<and> (\<forall>m'. Update pf o1 o2 ''enter'' m = Some m' \<longrightarrow> activeFacet m' = activeFacet m)"
proof -
  have r: "facet (resetActiveFacet o1 (m\<lparr>facet := 0, scrollOffset := 0\<rparr>)) = 0
      \<and> activeFacet (resetActiveFacet o1 (m\<lparr>facet := 0, scrollOffset := 0\<rparr>))
          = (case firstKey o1 (dataSource m) of None \<Rightarrow> [] | Some k \<Rightarrow> k)"
    by (simp add: resetActiveFacet_def dataSource_def Let_def split: option.splits)
  have z: "Update pf o1 o2 ''0'' m
      = Some (resetActiveFacet o1 (m\<lparr>facet := 0, scrollOffset := 0\<rparr>))"
    by (rule Update_zero)
  have a: "Update pf o1 o2 ''a'' m
      = Some (resetActiveFacet o1 (m\<lparr>facet := 0, scrollOffset := 0\<rparr>))"
    if "facet m = 1"
    using that by (simp add: Update_def)
  have c: "case firstKey o1 (dataSource m) of
           None \<Rightarrow>
             \<forall>c \<in> set (mapKeys (dataSource m)).
               getSortedFacetKeys (mapGet (dataSource m) c []) = []
         | Some k \<Rightarrow>
             \<exists>c \<in> set (mapKeys (dataSource m)).
               \<exists>rest. getSortedFacetKeys (mapGet (dataSource m) c []) = k # rest"
    if "rangeOrder (dataSource m) o1"
  proof (cases "firstKey o1 (dataSource m)")
    case None
    from firstKey_empty [OF None] that show ?thesis
      by (simp add: None rangeOrder_def)
  next
    case (Some k)
    from firstKey_column [OF Some] that show ?thesis
      by (simp add: Some rangeOrder_def)
  qed
  have e: "activeFacet m' = activeFacet m" if "Update pf o1 o2 ''enter'' m = Some m'" for m'
    using that keyEnter_selection(1) [of pf o1 m m'] by (simp add: Update_enter)
  from r z a c e show ?thesis by simp
qed

theorem view_switch_resets_selection_witness:
  "\<exists>m'. Update exampleFloat [1, 2] [1, 2] ''0'' blueSelected = Some m'
     \<and> facet m' = 0 \<and> activeFacet m' = ''red''"
proof -
  have ds: "dataSource blueSelected = readmeTable"
    by (simp add: dataSource_def blueSelected_def readmeState_fields)
  from view_switch_resets_selection [of exampleFloat "[1, 2]" "[1, 2]" blueSelected]
  obtain m' where "Update exampleFloat [1, 2] [1, 2] ''0'' blueSelected = Some m'"
    "facet m' = 0"
    "activeFacet m' = (case firstKey [1, 2] (dataSource blueSelected) of
                         None \<Rightarrow> [] | Some k \<Rightarrow> k)"
    by blast
  then have "Update exampleFloat [1, 2] [1, 2] ''0'' blueSelected = Some m' \<and> facet m' = 0
      \<and> activeFacet m' = ''red''"
    by (simp add: ds ranked_readme)
  then show ?thesis by blast
qed

section \<open>The frame of a filtered pass\<close>

text \<open>
  C10. A pass over a line with the filter on, \<open>processLineWithFilter\<close> with
  \<open>applyFilter = True\<close>, changes nothing but the filtered table: the full table, the
  string counts, the record counter and the stored lines are as before, and so is every
  other field. The same holds for a whole rebuild by \<open>regenerateFilteredData\<close>. Both
  return a state whenever no pin is bound to a negative column. (The two tables are
  separate Go maps: the rebuild makes the filtered table and its inner maps afresh, so
  no write to one can reach the other.)
\<close>

theorem filtered_mode_frame:
  "(\<forall>m'. processLineWithFilter pf m line True = Some m' \<longrightarrow>
       facetsData m' = facetsData m \<and> stringValues m' = stringValues m
       \<and> totalLogCount m' = totalLogCount m \<and> storedLines m' = storedLines m
       \<and> (\<exists>t. m' = m\<lparr>filteredData := t\<rparr>))
   \<and> (\<forall>m'. regenerateFilteredData pf m = Some m' \<longrightarrow>
       facetsData m' = facetsData m \<and> stringValues m' = stringValues m
       \<and> totalLogCount m' = totalLogCount m \<and> storedLines m' = storedLines m
       \<and> (\<exists>t. m' = m\<lparr>filteredData := t\<rparr>))
   \<and> (pinsWellFormed m \<longrightarrow>
        (\<exists>m'. processLineWithFilter pf m line True = Some m')
        \<and> (\<exists>m'. regenerateFilteredData pf m = Some m'))"
proof -
  have a: "facetsData m' = facetsData m \<and> stringValues m' = stringValues m
       \<and> totalLogCount m' = totalLogCount m \<and> storedLines m' = storedLines m
       \<and> (\<exists>t. m' = m\<lparr>filteredData := t\<rparr>)"
    if "processLineWithFilter pf m line True = Some m'" for m'
  proof -
    from filtered_pass_frame [OF that] obtain t where "m' = m\<lparr>filteredData := t\<rparr>" by blast
    then show ?thesis by auto
  qed
  have b: "facetsData m' = facetsData m \<and> stringValues m' = stringValues m
       \<and> totalLogCount m' = totalLogCount m \<and> storedLines m' = storedLines m
       \<and> (\<exists>t. m' = m\<lparr>filteredData := t\<rparr>)"
    if "regenerateFilteredData pf m = Some m'" for m'
  proof -
    from regenerate_frame [OF that] obtain t where "m' = m\<lparr>filteredData := t\<rparr>" by blast
    then show ?thesis by auto
  qed
  have c: "(\<exists>m'. processLineWithFilter pf m line True = Some m')
        \<and> (\<exists>m'. regenerateFilteredData pf m = Some m')"
    if "pinsWellFormed m"
    using that filtered_pass_returns [of m pf line] regenerate_returns [of m pf]
    by (simp add: pinsWellFormed_def)
  from a b c show ?thesis by blast
qed

theorem filtered_mode_frame_witness:
  "\<exists>m'. processLineWithFilter exampleFloat redPinned lineRedSeattle True = Some m'
     \<and> facetsData m' = readmeTable \<and> stringValues m' = [] \<and> totalLogCount m' = 4
     \<and> storedLines m' = readmeLines
     \<and> filteredData m' =
           [(1, [(''red'', [10.5, 15.2, 10.5])]),
            (2, [(''seattle'', [10.5, 10.5]), (''san jose'', [15.2])])]"
proof -
  have wf: "pinsWellFormed redPinned"
    using redPinned_reachable by (rule reachable_wellformed)
  have line: "TrimSpace lineRedSeattle \<noteq> []"
    by (simp add: TrimSpace_lineRedSeattle) (simp add: lineRedSeattle_def)
  from filtered_mode_frame [of exampleFloat redPinned lineRedSeattle] wf
  obtain m' where m': "processLineWithFilter exampleFloat redPinned lineRedSeattle True = Some m'"
    by blast
  with filtered_mode_frame [of exampleFloat redPinned lineRedSeattle]
  have "facetsData m' = facetsData redPinned \<and> stringValues m' = stringValues redPinned
       \<and> totalLogCount m' = totalLogCount redPinned \<and> storedLines m' = storedLines redPinned"
    by blast
  moreover have "filteredData m' =
           [(1, [(''red'', [10.5, 15.2, 10.5])]),
            (2, [(''seattle'', [10.5, 10.5]), (''san jose'', [15.2])])]"
    using m' filtered_pass_result [of redPinned lineRedSeattle exampleFloat] wf line
    by (simp add: pinsWellFormed_def TrimSpace_lineRedSeattle SplitTab_lineRedSeattle
        redPinned_def redSelected_def readmeState_def initialModel_def mapGet_def
        exampleFloat_def addSample_def)
  ultimately show ?thesis
    using m' by (simp add: redPinned_def redSelected_def readmeState_def initialModel_def)
qed

end
